theory Spec2Isabelle
  imports
    Complex_Main
    "HOL-Library.AList"
    "HOL-Library.Char_ord"
    "HOL-Library.List_Lexorder"
    "HOL-Library.Log_Nat"
begin

section \<open>Numbers\<close>

text \<open>
  The query engine of \<^verbatim>\<open>src/helpers/getDisasterCounts.js\<close> computes with JavaScript
  numbers, which are IEEE 754 binary64 values. A finite one is modelled by the rational
  it denotes; the two zeros are identified (no operation of the engine tells them apart:
  its only division has the divisor \<^verbatim>\<open>Math.PI * r ** 2\<close>, never a negative zero).
\<close>

datatype number = Fin rat | PosInf | NegInf | NaN

text \<open>
  Rounding to binary64, to nearest with ties to even: \<open>ilog2 a\<close> is the exponent of a
  positive \<open>a\<close> (the integer \<open>e\<close> with \<open>2 powi e \<le> a < 2 powi (e + 1)\<close>), the unit in the last
  place is \<open>2 powi (e - 52)\<close>, not below that of the subnormal numbers, and a result of
  magnitude \<open>2 powi 1024\<close> or more overflows to an infinity.
\<close>

definition ilog2 :: "rat \<Rightarrow> int" where
  "ilog2 a = (if 1 \<le> a then bitlen \<lfloor>a\<rfloor> - 1 else - bitlen (\<lceil>1 / a\<rceil> - 1))"

definition roundHalfEven :: "rat \<Rightarrow> int" where
  "roundHalfEven m =
     (let f = \<lfloor>m\<rfloor>; d = m - of_int f
      in if d < 1 / 2 then f else if 1 / 2 < d then f + 1 else if even f then f else f + 1)"

definition round64 :: "rat \<Rightarrow> number" where
  "round64 q =
     (if q = 0 then Fin 0
      else let a = \<bar>q\<bar>;
               e = max (ilog2 a) (- 1022);
               ulp = 2 powi (e - 52);
               r = of_int (roundHalfEven (a / ulp)) * ulp
           in if 2 powi 1024 \<le> r then (if 0 < q then PosInf else NegInf)
              else Fin (if 0 < q then r else - r))"

text \<open>The operators \<^verbatim>\<open>+\<close>, \<^verbatim>\<open>-\<close>, \<^verbatim>\<open>*\<close> and \<^verbatim>\<open>/\<close> on numbers.\<close>

fun num_neg :: "number \<Rightarrow> number" where
  "num_neg (Fin a) = Fin (- a)"
| "num_neg PosInf = NegInf"
| "num_neg NegInf = PosInf"
| "num_neg NaN = NaN"

fun num_add :: "number \<Rightarrow> number \<Rightarrow> number" where
  "num_add NaN y = NaN"
| "num_add x NaN = NaN"
| "num_add PosInf NegInf = NaN"
| "num_add NegInf PosInf = NaN"
| "num_add PosInf y = PosInf"
| "num_add x PosInf = PosInf"
| "num_add NegInf y = NegInf"
| "num_add x NegInf = NegInf"
| "num_add (Fin a) (Fin b) = round64 (a + b)"

definition num_sub :: "number \<Rightarrow> number \<Rightarrow> number" where
  "num_sub x y = num_add x (num_neg y)"

fun num_mul :: "number \<Rightarrow> number \<Rightarrow> number" where
  "num_mul NaN y = NaN"
| "num_mul x NaN = NaN"
| "num_mul (Fin a) (Fin b) = round64 (a * b)"
| "num_mul (Fin a) PosInf = (if a = 0 then NaN else if 0 < a then PosInf else NegInf)"
| "num_mul (Fin a) NegInf = (if a = 0 then NaN else if 0 < a then NegInf else PosInf)"
| "num_mul PosInf (Fin b) = (if b = 0 then NaN else if 0 < b then PosInf else NegInf)"
| "num_mul NegInf (Fin b) = (if b = 0 then NaN else if 0 < b then NegInf else PosInf)"
| "num_mul PosInf PosInf = PosInf"
| "num_mul PosInf NegInf = NegInf"
| "num_mul NegInf PosInf = NegInf"
| "num_mul NegInf NegInf = PosInf"

text \<open>A zero divisor is the positive zero.\<close>

fun num_div :: "number \<Rightarrow> number \<Rightarrow> number" where
  "num_div NaN y = NaN"
| "num_div x NaN = NaN"
| "num_div (Fin a) (Fin b) =
     (if b = 0 then (if a = 0 then NaN else if 0 < a then PosInf else NegInf)
      else round64 (a / b))"
| "num_div (Fin a) PosInf = Fin 0"
| "num_div (Fin a) NegInf = Fin 0"
| "num_div PosInf (Fin b) = (if 0 \<le> b then PosInf else NegInf)"
| "num_div NegInf (Fin b) = (if 0 \<le> b then NegInf else PosInf)"
| "num_div PosInf PosInf = NaN"
| "num_div PosInf NegInf = NaN"
| "num_div NegInf PosInf = NaN"
| "num_div NegInf NegInf = NaN"

text \<open>
  \<^verbatim>\<open>x ** 2\<close>. The language leaves the last bit of \<^verbatim>\<open>**\<close> to the implementation; the
  model takes the correctly rounded square, which every implementation returns when the
  square is a binary64 value (as for a radius of 10).
\<close>

definition num_square :: "number \<Rightarrow> number" where
  "num_square x = num_mul x x"

text \<open>\<^verbatim>\<open>x < y\<close> on numbers, and the truth value of a number in a condition.\<close>

fun num_less :: "number \<Rightarrow> number \<Rightarrow> bool" where
  "num_less NaN y = False"
| "num_less x NaN = False"
| "num_less (Fin a) (Fin b) = (a < b)"
| "num_less (Fin a) PosInf = True"
| "num_less (Fin a) NegInf = False"
| "num_less PosInf y = False"
| "num_less NegInf (Fin b) = True"
| "num_less NegInf PosInf = True"
| "num_less NegInf NegInf = False"

definition truthy :: "number \<Rightarrow> bool" where
  "truthy x = (x \<noteq> Fin 0 \<and> x \<noteq> NaN)"

text \<open>
  \<^verbatim>\<open>Math.PI\<close>, the binary64 value nearest to the circle constant; a number read from a
  variable that may hold \<^verbatim>\<open>undefined\<close> (which converts to \<^verbatim>\<open>NaN\<close>); the length of an
  array as a number.
\<close>

definition Math_PI :: number where
  "Math_PI = Fin (884279719003555 / 281474976710656)"

definition toNumber :: "number option \<Rightarrow> number" where
  "toNumber v = (case v of None \<Rightarrow> NaN | Some x \<Rightarrow> x)"

definition lengthNumber :: "'a list \<Rightarrow> number" where
  "lengthNumber xs = Fin (of_nat (length xs))"

text \<open>
  \<^verbatim>\<open>x.toFixed(f)\<close> writes the decimal numeral \<open>n / 10 ^ f\<close> where the integer \<open>n\<close> makes
  \<open>n / 10 ^ f\<close> nearest to the magnitude of \<open>x\<close> (the larger \<open>n\<close> of two), signed as \<open>x\<close>;
  from \<open>10 ^ 21\<close> on it writes the numeral of \<^verbatim>\<open>String(x)\<close>, which reads back as \<open>x\<close>. The
  text is modelled by what it denotes. \<^verbatim>\<open>parseFloat\<close> reads a numeral as the nearest
  binary64 value.
\<close>

datatype numeric_text = Decimal rat | TextInfinity | TextNegInfinity | TextNaN

definition toFixed :: "number \<Rightarrow> nat \<Rightarrow> numeric_text" where
  "toFixed x f =
     (case x of
        NaN \<Rightarrow> TextNaN
      | PosInf \<Rightarrow> TextInfinity
      | NegInf \<Rightarrow> TextNegInfinity
      | Fin q \<Rightarrow>
          if 10 ^ 21 \<le> \<bar>q\<bar> then Decimal q
          else Decimal (sgn q * of_int \<lfloor>\<bar>q\<bar> * 10 ^ f + 1 / 2\<rfloor> / 10 ^ f))"

definition parseFloat :: "numeric_text \<Rightarrow> number" where
  "parseFloat t =
     (case t of
        Decimal d \<Rightarrow> round64 d
      | TextInfinity \<Rightarrow> PosInf
      | TextNegInfinity \<Rightarrow> NegInf
      | TextNaN \<Rightarrow> NaN)"

section \<open>The collections\<close>

text \<open>
  The engine reads three collections that are loaded once: disasters, claims and agents.
  Identifiers and severity ratings are integers. Strings are \<^typ>\<open>string\<close>; with the two
  library theories on the order of characters and of lists, \<open><\<close> on strings is
  JavaScript's \<^verbatim>\<open><\<close> on strings (code unit by code unit, a proper prefix first).

  A date is given by what the engine reads from it: \<^verbatim>\<open>getFullYear()\<close>, \<^verbatim>\<open>getMonth()\<close>
  (January is 0) and \<^verbatim>\<open>getDate()\<close> of \<^verbatim>\<open>new Date(declared_date)\<close>. Parsing the text of
  the data file and the time zone of the host belong to the loader and the runtime.
\<close>

record date =
  getFullYear :: int
  getMonth :: nat
  getDate :: nat

record Disaster =
  d_id :: int
  d_state :: string
  declared_date :: date
  end_date :: date
  radius_miles :: number

record Claim =
  c_id :: int
  disaster_id :: int
  agent_assigned_id :: int
  claim_handler_assigned_id :: int
  status :: string
  estimate_cost :: number
  severity_rating :: int

text \<open>A missing or \<^verbatim>\<open>null\<close> secondary language is \<open>None\<close>.\<close>

record Agent =
  a_id :: int
  a_state :: string
  secondary_language :: "string option"

section \<open>Objects used as dictionaries\<close>

text \<open>
  An object literal \<^verbatim>\<open>{}\<close> filled by assignment is an association list of its own
  properties in insertion order: assigning to a present key keeps its place, assigning
  to a new key appends it (\<^const>\<open>AList.update\<close>).

  \<^verbatim>\<open>for (k in obj)\<close> and \<^verbatim>\<open>Object.keys(obj)\<close> list the own keys that are array indices
  first, in ascending numeric order, then the other own keys in insertion order. The
  properties of \<^verbatim>\<open>Object.prototype\<close> are not enumerable and are not listed.
\<close>

definition isDigit :: "char \<Rightarrow> bool" where
  "isDigit c = (48 \<le> (of_char c :: nat) \<and> (of_char c :: nat) \<le> 57)"

definition digitsValue :: "string \<Rightarrow> nat" where
  "digitsValue s = foldl (\<lambda>n c. 10 * n + (of_char c - 48)) 0 s"

definition isArrayIndex :: "string \<Rightarrow> bool" where
  "isArrayIndex s =
     (s \<noteq> [] \<and> list_all isDigit s \<and> (if hd s = CHR ''0'' then length s = 1 else True)
      \<and> digitsValue s < 2 ^ 32 - 1)"

definition ownKeys :: "(string \<times> 'v) list \<Rightarrow> string list" where
  "ownKeys obj =
     (let ks = map fst obj
      in sort_key digitsValue (filter isArrayIndex ks) @ filter (\<lambda>k. \<not> isArrayIndex k) ks)"

text \<open>
  Reading \<^verbatim>\<open>obj[k]\<close> finds an own property first and a property of \<^verbatim>\<open>Object.prototype\<close>
  otherwise. These are the names of the properties of \<^verbatim>\<open>Object.prototype\<close>. Each holds
  a function, which an assignment to \<^verbatim>\<open>obj[k]\<close> shadows by an own property; only
  \<^verbatim>\<open>__proto__\<close> is an accessor: reading it gives \<^verbatim>\<open>Object.prototype\<close> itself, and
  assigning a number to it does nothing.
\<close>

definition objectPrototypeKeys :: "string list" where
  "objectPrototypeKeys = [''constructor'', ''__defineGetter__'', ''__defineSetter__'',
     ''hasOwnProperty'', ''__lookupGetter__'', ''__lookupSetter__'', ''isPrototypeOf'',
     ''propertyIsEnumerable'', ''toString'', ''valueOf'', ''__proto__'', ''toLocaleString'']"

section \<open>The Disaster-Count Index\<close>

text \<open>
  The numbers that a counter holds: a natural number, \<^verbatim>\<open>Infinity\<close> (where the search for
  a minimum starts) and \<^verbatim>\<open>NaN\<close> (what \<^verbatim>\<open>++\<close> makes of a function, of an object and of
  \<^verbatim>\<open>undefined\<close>). A collection is an array, which has fewer than \<open>2\<^sup>3\<^sup>2\<close> elements, so
  that counting its elements one by one is exact in binary64.

  \<^verbatim>\<open>NaN\<close> is falsy, compares neither less nor greater than any number and is not
  \<^verbatim>\<open>===\<close> to any number, itself included.
\<close>

datatype counter = Count nat | Infinity | NotANumber

fun plusOne :: "counter \<Rightarrow> counter" where
  "plusOne (Count n) = Count (n + 1)"
| "plusOne Infinity = Infinity"
| "plusOne NotANumber = NotANumber"

fun truthyCounter :: "counter \<Rightarrow> bool" where
  "truthyCounter (Count n) = (n \<noteq> 0)"
| "truthyCounter Infinity = True"
| "truthyCounter NotANumber = False"

fun counter_less :: "counter \<Rightarrow> counter \<Rightarrow> bool" where
  "counter_less (Count a) (Count b) = (a < b)"
| "counter_less (Count a) Infinity = True"
| "counter_less (Count a) NotANumber = False"
| "counter_less Infinity b = False"
| "counter_less NotANumber b = False"

definition strictEquals :: "counter \<Rightarrow> counter \<Rightarrow> bool" where
  "strictEquals a b = (a = b \<and> a \<noteq> NotANumber)"

text \<open>
  \<^verbatim>\<open>counts[s]\<close> where a number is compared: the own property when there is one. What is
  read otherwise (\<^verbatim>\<open>undefined\<close>, an inherited function, \<^verbatim>\<open>Object.prototype\<close>) is
  \<^verbatim>\<open>NaN\<close> as a number and is \<^verbatim>\<open>===\<close> to no number.
\<close>

definition readCounter :: "(string \<times> counter) list \<Rightarrow> string \<Rightarrow> counter" where
  "readCounter counts s = (case map_of counts s of Some v \<Rightarrow> v | None \<Rightarrow> NotANumber)"

text \<open>
  \<^verbatim>\<open>if (!counts[s]) counts[s] = 0\<close>: an own count that is zero or \<^verbatim>\<open>NaN\<close> is reset to
  zero, and so is a missing one, unless \<^verbatim>\<open>s\<close> names a property of \<^verbatim>\<open>Object.prototype\<close>:
  what is read then is a function or an object, which is truthy, and nothing is stored.
\<close>

definition initCount :: "string \<Rightarrow> (string \<times> counter) list \<Rightarrow> (string \<times> counter) list" where
  "initCount s counts =
     (case map_of counts s of
        Some v \<Rightarrow> if truthyCounter v then counts else AList.update s (Count 0) counts
      | None \<Rightarrow>
          if s \<in> set objectPrototypeKeys then counts else AList.update s (Count 0) counts)"

text \<open>
  \<^verbatim>\<open>counts[s]++\<close>: an own count is incremented. Without an own property the value read
  is \<^verbatim>\<open>undefined\<close>, a function or an object, the sum is \<^verbatim>\<open>NaN\<close>, and \<^verbatim>\<open>NaN\<close> is stored
  as an own property; the setter of \<^verbatim>\<open>__proto__\<close> ignores it.
\<close>

definition increment :: "string \<Rightarrow> (string \<times> counter) list \<Rightarrow> (string \<times> counter) list" where
  "increment s counts =
     (case map_of counts s of
        Some v \<Rightarrow> AList.update s (plusOne v) counts
      | None \<Rightarrow> if s = ''__proto__'' then counts else AList.update s NotANumber counts)"

definition countDisaster ::
  "(string \<times> counter) list \<Rightarrow> Disaster \<Rightarrow> (string \<times> counter) list" where
  "countDisaster state_disaster_counts disaster =
     increment (d_state disaster) (initCount (d_state disaster) state_disaster_counts)"

definition getDisasterCounts :: "Disaster list \<Rightarrow> (string \<times> counter) list" where
  "getDisasterCounts sfcc2023Disasters = foldl countDisaster [] sfcc2023Disasters"

section \<open>The queries\<close>

text \<open>
  Each query is a function of the collections it reads, which the source holds in
  module-level constants. \<open>None\<close> is \<^verbatim>\<open>null\<close>.
\<close>

definition getNumDisastersForState :: "Disaster list \<Rightarrow> string \<Rightarrow> nat" where
  "getNumDisastersForState sfcc2023Disasters state =
     length (filter (\<lambda>disaster. d_state disaster = state) sfcc2023Disasters)"

definition getTotalClaimCostForDisaster :: "Claim list \<Rightarrow> int \<Rightarrow> number option" where
  "getTotalClaimCostForDisaster sfcc2023Claims disasterId =
     (let related_claims = filter (\<lambda>claim. disaster_id claim = disasterId) sfcc2023Claims
      in if length related_claims = 0 then None
         else
           let total_cost = foldl (\<lambda>acc claim. num_add acc (estimate_cost claim)) (Fin 0)
                              related_claims
           in Some (parseFloat (toFixed total_cost 2)))"

text \<open>
  One pass of the loop body of \<^verbatim>\<open>getStateWithMostDisasters\<close>, on the two variables of
  the loop.
\<close>

definition mostStep ::
  "(string \<times> counter) list \<Rightarrow> counter \<times> string \<Rightarrow> string \<Rightarrow> counter \<times> string" where
  "mostStep disasterCounts acc state =
     (case acc of (max_disaster_counter, state_with_most_disasters) \<Rightarrow>
        if counter_less max_disaster_counter (readCounter disasterCounts state)
          then (readCounter disasterCounts state, state)
        else if strictEquals (readCounter disasterCounts state) max_disaster_counter
                \<and> state < state_with_most_disasters
          then (max_disaster_counter, state)
        else acc)"

definition getStateWithMostDisasters :: "Disaster list \<Rightarrow> string" where
  "getStateWithMostDisasters sfcc2023Disasters =
     (let disasterCounts = getDisasterCounts sfcc2023Disasters
      in snd (foldl (mostStep disasterCounts) (Count 0, '''') (ownKeys disasterCounts)))"

text \<open>The same for \<^verbatim>\<open>getStateWithLeastDisasters\<close>, whose minimum starts at \<^verbatim>\<open>Infinity\<close>.\<close>

definition leastStep ::
  "(string \<times> counter) list \<Rightarrow> counter \<times> string \<Rightarrow> string \<Rightarrow> counter \<times> string" where
  "leastStep disasterCounts acc state =
     (case acc of (min_disaster_counter, state_with_least_disasters) \<Rightarrow>
        if counter_less (readCounter disasterCounts state) min_disaster_counter
          then (readCounter disasterCounts state, state)
        else if strictEquals (readCounter disasterCounts state) min_disaster_counter
                \<and> state < state_with_least_disasters
          then (min_disaster_counter, state)
        else acc)"

definition getStateWithLeastDisasters :: "Disaster list \<Rightarrow> string" where
  "getStateWithLeastDisasters sfcc2023Disasters =
     (let disasterCounts = getDisasterCounts sfcc2023Disasters
      in snd (foldl (leastStep disasterCounts) (Infinity, '''') (ownKeys disasterCounts)))"

text \<open>
  \<^verbatim>\<open>getMostSpokenAgentLanguageByState\<close>: one pass over the agents of the state, with the
  frequency object, the running maximum and the running answer. A secondary language
  that is absent or empty is falsy.
\<close>

definition tallyAgent ::
  "(string \<times> counter) list \<times> counter \<times> string \<Rightarrow> Agent
     \<Rightarrow> (string \<times> counter) list \<times> counter \<times> string" where
  "tallyAgent acc agent =
     (case acc of (language_frequency, max_language_counter, most_spoken_language) \<Rightarrow>
        (case secondary_language agent of
           None \<Rightarrow> acc
         | Some spoken_language \<Rightarrow>
             if spoken_language \<noteq> '''' \<and> spoken_language \<noteq> ''English'' then
               let language_frequency' =
                     increment spoken_language (initCount spoken_language language_frequency)
               in if counter_less max_language_counter
                       (readCounter language_frequency' spoken_language)
                    then (language_frequency', readCounter language_frequency' spoken_language,
                          spoken_language)
                  else if strictEquals (readCounter language_frequency' spoken_language)
                            max_language_counter
                          \<and> spoken_language < most_spoken_language
                    then (language_frequency', max_language_counter, spoken_language)
                  else (language_frequency', max_language_counter, most_spoken_language)
             else acc))"

definition getMostSpokenAgentLanguageByState :: "Agent list \<Rightarrow> string \<Rightarrow> string" where
  "getMostSpokenAgentLanguageByState sfcc2023Agents state =
     (let agents = filter (\<lambda>agent. a_state agent = state) sfcc2023Agents
      in if length agents = 0 then ''''
         else snd (snd (foldl tallyAgent ([], Count 0, '''') agents)))"

text \<open>
  \<^verbatim>\<open>getNumOfOpenClaimsForAgentAndSeverity\<close>: the reduce over the open claims counts those
  at or above the rating.
\<close>

definition getNumOfOpenClaimsForAgentAndSeverity :: "Claim list \<Rightarrow> int \<Rightarrow> int \<Rightarrow> int option" where
  "getNumOfOpenClaimsForAgentAndSeverity sfcc2023Claims agentId minSeverityRating =
     (if minSeverityRating > 10 \<or> minSeverityRating \<le> 0 then Some (- 1)
      else
        let claims = filter (\<lambda>claim. agent_assigned_id claim = agentId) sfcc2023Claims
        in if length claims = 0 then None
           else
             let open_claims = filter (\<lambda>claim. status claim \<noteq> ''Closed'') claims
             in Some (foldl (\<lambda>acc claim. if severity_rating claim \<ge> minSeverityRating
                                          then acc + 1 else acc) 0 open_claims))"

text \<open>
  \<^verbatim>\<open>buildMapOfAgentsToTotalClaimCost\<close>. The object returned is keyed by the agent ids; a
  number used as a key is identified with its decimal text.
\<close>

definition agentClaimCost :: "Claim list \<Rightarrow> (int \<rightharpoonup> number) \<Rightarrow> Agent \<Rightarrow> (int \<rightharpoonup> number)" where
  "agentClaimCost sfcc2023Claims agent_to_claim_cost agent =
     (let claims = filter (\<lambda>claim. agent_assigned_id claim = a_id agent) sfcc2023Claims;
          total_claim_cost = foldl (\<lambda>acc claim. num_add acc (estimate_cost claim)) (Fin 0) claims
      in agent_to_claim_cost(a_id agent \<mapsto> parseFloat (toFixed total_claim_cost 2)))"

definition buildMapOfAgentsToTotalClaimCost :: "Agent list \<Rightarrow> Claim list \<Rightarrow> (int \<rightharpoonup> number)" where
  "buildMapOfAgentsToTotalClaimCost sfcc2023Agents sfcc2023Claims =
     foldl (agentClaimCost sfcc2023Claims) Map.empty sfcc2023Agents"

text \<open>
  \<^verbatim>\<open>calculateDisasterClaimDensity\<close>. The optional chain \<^verbatim>\<open>find(...)?.radius_miles\<close> is
  \<^verbatim>\<open>undefined\<close> when no disaster has the id.
\<close>

definition calculateDisasterClaimDensity ::
  "Disaster list \<Rightarrow> Claim list \<Rightarrow> int \<Rightarrow> number option" where
  "calculateDisasterClaimDensity sfcc2023Disasters sfcc2023Claims disasterId =
     (let claims_from_disaster = filter (\<lambda>claim. disaster_id claim = disasterId) sfcc2023Claims
      in if length claims_from_disaster = 0 then None
         else
           let radius_of_disaster =
                 map_option radius_miles
                   (find (\<lambda>disaster. d_id disaster = disasterId) sfcc2023Disasters);
               disaster_claim_density =
                 num_div (lengthNumber claims_from_disaster)
                   (num_mul Math_PI (num_square (toNumber radius_of_disaster)))
           in Some (parseFloat (toFixed disaster_claim_density 5)))"

section \<open>The months with the highest claim cost\<close>

text \<open>
  The name of a month in the host's locale, taken to be English: \<^verbatim>\<open>new Date(2000, m)\<close>
  for a month index past 11 rolls over into the following years. A year is an integer,
  written by the template literal in decimal.
\<close>

definition monthNames :: "string list" where
  "monthNames = [''January'', ''February'', ''March'', ''April'', ''May'', ''June'', ''July'',
     ''August'', ''September'', ''October'', ''November'', ''December'']"

definition monthName :: "nat \<Rightarrow> string" where
  "monthName m = monthNames ! (m mod 12)"

fun digitsOf :: "nat \<Rightarrow> string" where
  "digitsOf n =
     (if n < 10 then [''0123456789'' ! n]
      else digitsOf (n div 10) @ [''0123456789'' ! (n mod 10)])"

definition numberToString :: "int \<Rightarrow> string" where
  "numberToString i = (if i < 0 then ''-'' @ digitsOf (nat (- i)) else digitsOf (nat i))"

definition monthYear :: "Disaster \<Rightarrow> string" where
  "monthYear disaster =
     (let month = getMonth (declared_date disaster) + 1;
          month_name = monthName (month - 1);
          year = getFullYear (declared_date disaster)
      in month_name @ '' '' @ numberToString year)"

text \<open>
  The body of the \<^verbatim>\<open>forEach\<close>: a claim whose disaster is not found is skipped; a sum
  that is missing, zero or \<^verbatim>\<open>NaN\<close> is (re)set to zero before the cost is added. A key
  of this object holds a space, which no name of a property of \<^verbatim>\<open>Object.prototype\<close>
  does: a key without an own property reads as \<^verbatim>\<open>undefined\<close>.
\<close>

definition addClaimToMonth ::
  "Disaster list \<Rightarrow> (string \<times> number) list \<Rightarrow> Claim \<Rightarrow> (string \<times> number) list" where
  "addClaimToMonth sfcc2023Disasters month_claim_costs claim =
     (case find (\<lambda>d. d_id d = disaster_id claim) sfcc2023Disasters of
        None \<Rightarrow> month_claim_costs
      | Some disaster \<Rightarrow>
          let month_year = monthYear disaster;
              costs =
                (case map_of month_claim_costs month_year of
                   None \<Rightarrow> AList.update month_year (Fin 0) month_claim_costs
                 | Some v \<Rightarrow>
                     if truthy v then month_claim_costs
                     else AList.update month_year (Fin 0) month_claim_costs)
          in (case map_of costs month_year of
                None \<Rightarrow> costs
              | Some v \<Rightarrow> AList.update month_year (num_add v (estimate_cost claim)) costs))"

text \<open>
  The comparison function \<^verbatim>\<open>costs[b] - costs[a] || a.localeCompare(b)\<close>. A missing
  property is \<^verbatim>\<open>undefined\<close>, which is \<^verbatim>\<open>NaN\<close> in a subtraction. \<^verbatim>\<open>localeCompare\<close> is
  taken to be the order of strings: the keys are an English month name, a space and a
  year, on which the two agree.
\<close>

definition localeCompare :: "string \<Rightarrow> string \<Rightarrow> number" where
  "localeCompare a b = (if a < b then Fin (- 1) else if a = b then Fin 0 else Fin 1)"

definition compareMonths :: "(string \<times> number) list \<Rightarrow> string \<Rightarrow> string \<Rightarrow> number" where
  "compareMonths month_claim_costs a b =
     (let difference = num_sub (toNumber (map_of month_claim_costs b))
                         (toNumber (map_of month_claim_costs a))
      in if truthy difference then difference else localeCompare a b)"

text \<open>
  \<^verbatim>\<open>Array.prototype.sort\<close> with a comparison function, as a stable insertion sort: an
  element goes after those it compares greater than (a positive result). The language
  fixes the result only for a consistent comparison function.
\<close>

fun insertSorted :: "('a \<Rightarrow> 'a \<Rightarrow> number) \<Rightarrow> 'a \<Rightarrow> 'a list \<Rightarrow> 'a list" where
  "insertSorted cmp x [] = [x]"
| "insertSorted cmp x (y # ys) =
     (if num_less (Fin 0) (cmp x y) then y # insertSorted cmp x ys else x # y # ys)"

definition sortWith :: "('a \<Rightarrow> 'a \<Rightarrow> number) \<Rightarrow> 'a list \<Rightarrow> 'a list" where
  "sortWith cmp xs = foldr (insertSorted cmp) xs []"

definition getTopThreeMonthsWithHighestNumOfClaimsDesc ::
  "Disaster list \<Rightarrow> Claim list \<Rightarrow> string list" where
  "getTopThreeMonthsWithHighestNumOfClaimsDesc sfcc2023Disasters sfcc2023Claims =
     (let month_claim_costs = foldl (addClaimToMonth sfcc2023Disasters) [] sfcc2023Claims;
          sorted_months = take 3 (sortWith (compareMonths month_claim_costs)
                                    (ownKeys month_claim_costs))
      in sorted_months)"

section \<open>Notions used in the statements\<close>

text \<open>
  The language an agent contributes to the tally (none when the secondary language is
  absent, empty or \<^verbatim>\<open>"English"\<close>), the languages contributed by the agents of a state, and
  the tally of a language in a state.
\<close>

definition talliedLanguage ::
  "Agent \<Rightarrow> string option" where
  "talliedLanguage agent =
     (case secondary_language agent of
        None \<Rightarrow> None
      | Some l \<Rightarrow> if l = '''' \<or> l = ''English'' then None else Some l)"

definition talliedLanguages :: "Agent list \<Rightarrow> string \<Rightarrow> string list" where
  "talliedLanguages agents state =
     List.map_filter talliedLanguage (filter (\<lambda>agent. a_state agent = state) agents)"

definition languageTally :: "Agent list \<Rightarrow> string \<Rightarrow> string \<Rightarrow> nat" where
  "languageTally agents state l =
     (if l = '''' \<or> l = ''English'' then 0
      else length (filter (\<lambda>agent. a_state agent = state \<and> secondary_language agent = Some l)
                     agents))"

text \<open>
  The sum of the costs of the claims assigned to an agent, as the code adds them.
\<close>

definition agentTotal :: "Claim list \<Rightarrow> int \<Rightarrow> number" where
  "agentTotal cs k =
     foldl num_add (Fin 0) (map estimate_cost (filter (\<lambda>claim. agent_assigned_id claim = k) cs))"

text \<open>
  The claims of a month (those whose disaster is found and was declared in it), and
  their summed cost as the code adds it, with no rounding to decimals.
\<close>

definition claimsOfMonth :: "Disaster list \<Rightarrow> Claim list \<Rightarrow> string \<Rightarrow> Claim list" where
  "claimsOfMonth ds cs k =
     filter (\<lambda>claim. map_option monthYear (find (\<lambda>d. d_id d = disaster_id claim) ds) = Some k) cs"

definition monthTotal :: "Disaster list \<Rightarrow> Claim list \<Rightarrow> string \<Rightarrow> number" where
  "monthTotal ds cs k = foldl num_add (Fin 0) (map estimate_cost (claimsOfMonth ds cs k))"

text \<open>
  The values that arithmetic on finite numbers produces: the infinities and the
  multiples of the least positive binary64 number.
\<close>

definition isValue :: "number \<Rightarrow> bool" where
  "isValue v =
     (case v of
        Fin x \<Rightarrow> (\<exists>k::int. x = of_int k * 2 powi (- 1074))
      | PosInf \<Rightarrow> True
      | NegInf \<Rightarrow> True
      | NaN \<Rightarrow> False)"

section \<open>Sample collections\<close>

text \<open>Small collections on which the theorems below are instantiated.\<close>

definition mkDisaster :: "int \<Rightarrow> string \<Rightarrow> Disaster" where
  "mkDisaster i s = \<lparr>d_id = i, d_state = s,
     declared_date = \<lparr>getFullYear = 2023, getMonth = 0, getDate = 1\<rparr>,
     end_date = \<lparr>getFullYear = 2023, getMonth = 1, getDate = 1\<rparr>, radius_miles = Fin 10\<rparr>"

definition sampleDisasters :: "Disaster list" where
  "sampleDisasters = [mkDisaster 1 ''Texas'', mkDisaster 2 ''Ohio'', mkDisaster 3 ''Utah'',
     mkDisaster 4 ''Texas'', mkDisaster 5 ''Ohio'', mkDisaster 6 ''Iowa'']"

definition mkClaim :: "int \<Rightarrow> int \<Rightarrow> int \<Rightarrow> string \<Rightarrow> number \<Rightarrow> int \<Rightarrow> Claim" where
  "mkClaim i d a st cost sev = \<lparr>c_id = i, disaster_id = d, agent_assigned_id = a,
     claim_handler_assigned_id = 1, status = st, estimate_cost = cost, severity_rating = sev\<rparr>"

definition sampleClaims :: "Claim list" where
  "sampleClaims = [mkClaim 1 1 7 ''Closed'' (Fin 100) 8, mkClaim 2 1 7 ''Received'' (Fin 250) 3,
     mkClaim 3 2 8 ''In Review'' (Fin 40) 9]"

definition mkAgent :: "int \<Rightarrow> string \<Rightarrow> string option \<Rightarrow> Agent" where
  "mkAgent i s l = \<lparr>a_id = i, a_state = s, secondary_language = l\<rparr>"

definition sampleAgents :: "Agent list" where
  "sampleAgents = [mkAgent 1 ''Texas'' (Some ''Spanish''), mkAgent 2 ''Texas'' (Some ''French''),
     mkAgent 3 ''Texas'' (Some ''English''), mkAgent 4 ''Texas'' None,
     mkAgent 5 ''Texas'' (Some ''French''), mkAgent 6 ''Texas'' (Some ''Spanish''),
     mkAgent 7 ''Ohio'' (Some ''German''), mkAgent 8 ''Utah'' (Some ''English''),
     mkAgent 9 ''Utah'' (Some '''')]"

definition sampleCosts :: "Claim list" where
  "sampleCosts = [mkClaim 1 1 7 ''Closed'' (round64 (10005 / 1000)) 8,
     mkClaim 2 2 7 ''Received'' (Fin 40) 3, mkClaim 3 1 8 ''In Review'' (Fin 5) 9]"

definition densityClaims :: "Claim list" where
  "densityClaims = [mkClaim 1 1 7 ''Closed'' (Fin 100) 8, mkClaim 2 1 7 ''Received'' (Fin 250) 3,
     mkClaim 3 1 8 ''In Review'' (Fin 40) 9, mkClaim 4 99 8 ''Received'' (Fin 5) 2,
     mkClaim 5 1 9 ''Closed'' (Fin 5) 1]"

definition declaredIn :: "int \<Rightarrow> int \<Rightarrow> nat \<Rightarrow> Disaster" where
  "declaredIn i y m = \<lparr>d_id = i, d_state = ''Texas'',
     declared_date = \<lparr>getFullYear = y, getMonth = m, getDate = 1\<rparr>,
     end_date = \<lparr>getFullYear = y, getMonth = m, getDate = 20\<rparr>, radius_miles = Fin 10\<rparr>"

definition monthDisasters :: "Disaster list" where
  "monthDisasters = [declaredIn 1 2023 0, declaredIn 2 2023 2, declaredIn 3 2023 3,
     declaredIn 4 2022 4]"

definition monthClaims :: "Claim list" where
  "monthClaims = [mkClaim 1 1 7 ''Closed'' (Fin 100) 8, mkClaim 2 2 7 ''Received'' (Fin 40) 3,
     mkClaim 3 1 8 ''In Review'' (Fin 250) 9, mkClaim 4 3 8 ''Received'' (Fin 40) 2,
     mkClaim 5 99 9 ''Closed'' (Fin 999) 1, mkClaim 6 4 9 ''Closed'' (Fin 5) 1]"

section \<open>The index against the linear scan\<close>

lemma map_of_countDisaster_other:
  "d_state disaster \<noteq> s \<Longrightarrow> map_of (countDisaster counts disaster) s = map_of counts s"
  by (auto simp: countDisaster_def increment_def initCount_def update_conv'
      split: option.splits)

lemma map_of_increment_initCount:
  assumes "s \<notin> set objectPrototypeKeys"
    and "map_of counts s = (if m = 0 then None else Some (Count m))"
  shows "map_of (increment s (initCount s counts)) = (map_of counts)(s \<mapsto> Count (m + 1))"
  using assms
  by (auto simp: increment_def initCount_def update_conv' split: option.splits if_splits)

lemma map_of_foldl_countDisaster:
  assumes "s \<notin> set objectPrototypeKeys"
    and "map_of counts s = (if m = 0 then None else Some (Count m))"
  shows "map_of (foldl countDisaster counts ds) s =
     (let n = m + length (filter (\<lambda>disaster. d_state disaster = s) ds)
      in if n = 0 then None else Some (Count n))"
  using assms(2)
proof (induction ds arbitrary: counts m)
  case Nil
  then show ?case by simp
next
  case (Cons d ds)
  show ?case
  proof (cases "d_state d = s")
    case True
    have "map_of (countDisaster counts d) s = Some (Count (m + 1))"
      using map_of_increment_initCount [OF assms(1) Cons.prems]
      by (simp add: countDisaster_def True)
    then have "map_of (countDisaster counts d) s
        = (if m + 1 = 0 then None else Some (Count (m + 1)))" by simp
    from Cons.IH [OF this] show ?thesis by (simp add: True Let_def)
  next
    case False
    then have "map_of (countDisaster counts d) s = (if m = 0 then None else Some (Count m))"
      using Cons.prems by (simp add: map_of_countDisaster_other)
    from Cons.IH [OF this] show ?thesis by (simp add: False Let_def)
  qed
qed

lemma map_of_getDisasterCounts:
  assumes "s \<notin> set objectPrototypeKeys"
  shows "map_of (getDisasterCounts ds) s =
     (if getNumDisastersForState ds s = 0 then None
      else Some (Count (getNumDisastersForState ds s)))"
  using map_of_foldl_countDisaster [OF assms, of "[]" 0 ds]
  by (simp add: getDisasterCounts_def getNumDisastersForState_def Let_def)

lemma map_of_foldl_countDisaster_absent:
  "s \<notin> d_state ` set ds \<Longrightarrow> map_of (foldl countDisaster counts ds) s = map_of counts s"
  by (induction ds arbitrary: counts) (auto simp: map_of_countDisaster_other)

lemma getNumDisastersForState_zero_iff:
  "getNumDisastersForState ds s = 0 \<longleftrightarrow> s \<notin> d_state ` set ds"
  by (auto simp: getNumDisastersForState_def filter_empty_conv)

lemma index_entry:
  assumes "\<forall>disaster \<in> set ds. d_state disaster \<notin> set objectPrototypeKeys"
  shows "map_of (getDisasterCounts ds) s =
     (if s \<in> d_state ` set ds then Some (Count (getNumDisastersForState ds s)) else None)"
proof (cases "s \<in> d_state ` set ds")
  case True
  with assms have "s \<notin> set objectPrototypeKeys" by auto
  from map_of_getDisasterCounts [OF this, of ds] True show ?thesis
    by (simp add: getNumDisastersForState_zero_iff)
next
  case False
  then show ?thesis
    by (simp add: getDisasterCounts_def map_of_foldl_countDisaster_absent)
qed

lemma index_keys:
  assumes "\<forall>disaster \<in> set ds. d_state disaster \<notin> set objectPrototypeKeys"
  shows "fst ` set (getDisasterCounts ds) = d_state ` set ds"
proof -
  have "fst ` set (getDisasterCounts ds) = dom (map_of (getDisasterCounts ds))"
    by (simp add: dom_map_of_conv_image_fst)
  also have "\<dots> = d_state ` set ds"
    by (auto simp: dom_def index_entry [OF assms] split: if_splits)
  finally show ?thesis .
qed

text \<open>
  C2 (amended). For every state name that is not the name of a property of
  \<^verbatim>\<open>Object.prototype\<close>, the linear scan \<open>getNumDisastersForState\<close> gives the entry of the
  index built by \<open>getDisasterCounts\<close> when the name is a key, and 0 when it is not. When
  no Disaster record has such a name as its state, the keys of the index are the states
  of the Disaster records, each with the number of records of that state.
\<close>

theorem index_agrees_with_scan:
  "(s \<notin> set objectPrototypeKeys \<longrightarrow>
      Count (getNumDisastersForState ds s) =
        (case map_of (getDisasterCounts ds) s of Some v \<Rightarrow> v | None \<Rightarrow> Count 0)
      \<and> (s \<in> fst ` set (getDisasterCounts ds) \<longleftrightarrow> s \<in> d_state ` set ds))
   \<and> ((\<forall>disaster \<in> set ds. d_state disaster \<notin> set objectPrototypeKeys) \<longrightarrow>
        fst ` set (getDisasterCounts ds) = d_state ` set ds
        \<and> (\<forall>k. map_of (getDisasterCounts ds) k =
              (if k \<in> d_state ` set ds
               then Some (Count (length (filter (\<lambda>disaster. d_state disaster = k) ds)))
               else None)))"
proof -
  have one: "Count (getNumDisastersForState ds s) =
        (case map_of (getDisasterCounts ds) s of Some v \<Rightarrow> v | None \<Rightarrow> Count 0)
      \<and> (s \<in> fst ` set (getDisasterCounts ds) \<longleftrightarrow> s \<in> d_state ` set ds)"
    if s: "s \<notin> set objectPrototypeKeys"
  proof -
    have "s \<in> fst ` set (getDisasterCounts ds) \<longleftrightarrow> s \<in> dom (map_of (getDisasterCounts ds))"
      by (simp add: dom_map_of_conv_image_fst)
    also have "\<dots> \<longleftrightarrow> s \<in> d_state ` set ds"
      using getNumDisastersForState_zero_iff [of ds s]
      by (auto simp: dom_def map_of_getDisasterCounts [OF s] split: if_splits)
    finally show ?thesis by (simp add: map_of_getDisasterCounts [OF s])
  qed
  have all: "fst ` set (getDisasterCounts ds) = d_state ` set ds
        \<and> (\<forall>k. map_of (getDisasterCounts ds) k =
              (if k \<in> d_state ` set ds
               then Some (Count (length (filter (\<lambda>disaster. d_state disaster = k) ds)))
               else None))"
    if ds: "\<forall>disaster \<in> set ds. d_state disaster \<notin> set objectPrototypeKeys"
    using index_keys [OF ds] index_entry [OF ds] by (simp add: getNumDisastersForState_def)
  from one all show ?thesis by blast
qed

theorem index_agrees_with_scan_witness:
  "''Texas'' \<notin> set objectPrototypeKeys
   \<and> getNumDisastersForState sampleDisasters ''Texas'' = 2
   \<and> map_of (getDisasterCounts sampleDisasters) ''Texas'' = Some (Count 2)
   \<and> getNumDisastersForState sampleDisasters ''Maine'' = 0
   \<and> map_of (getDisasterCounts sampleDisasters) ''Maine'' = None
   \<and> fst ` set (getDisasterCounts sampleDisasters) = {''Texas'', ''Ohio'', ''Utah'', ''Iowa''}"
proof -
  have texas: "''Texas'' \<notin> set objectPrototypeKeys" by (simp add: objectPrototypeKeys_def)
  have sample: "\<forall>disaster \<in> set sampleDisasters. d_state disaster \<notin> set objectPrototypeKeys"
    by (simp add: sampleDisasters_def mkDisaster_def objectPrototypeKeys_def)
  have two: "getNumDisastersForState sampleDisasters ''Texas'' = 2"
    by (simp add: getNumDisastersForState_def sampleDisasters_def mkDisaster_def)
  have none: "getNumDisastersForState sampleDisasters ''Maine'' = 0"
    by (simp add: getNumDisastersForState_def sampleDisasters_def mkDisaster_def)
  have states: "d_state ` set sampleDisasters = {''Texas'', ''Ohio'', ''Utah'', ''Iowa''}"
    by (auto simp: sampleDisasters_def mkDisaster_def)
  note all = index_agrees_with_scan [of "''Texas''" sampleDisasters, THEN conjunct2, THEN mp,
      OF sample]
  have keys: "fst ` set (getDisasterCounts sampleDisasters)
      = {''Texas'', ''Ohio'', ''Utah'', ''Iowa''}"
    using all states by simp
  note one = index_agrees_with_scan [of "''Texas''" sampleDisasters, THEN conjunct1, THEN mp,
      OF texas]
  have entry: "map_of (getDisasterCounts sampleDisasters) ''Texas'' = Some (Count 2)"
  proof (cases "map_of (getDisasterCounts sampleDisasters) ''Texas''")
    case None
    with one two show ?thesis by simp
  next
    case (Some v)
    with one two show ?thesis by simp
  qed
  have absent: "map_of (getDisasterCounts sampleDisasters) ''Maine'' = None"
    using all states by simp
  from texas two entry none absent keys show ?thesis by (intro conjI)
qed

text \<open>
  C2 as stated fails on a state named as a property of \<^verbatim>\<open>Object.prototype\<close>: one record
  of state \<^verbatim>\<open>constructor\<close> leaves \<^verbatim>\<open>NaN\<close> in the index, two records leave 1, and a
  record of state \<^verbatim>\<open>__proto__\<close> leaves no key at all.
\<close>

theorem index_inherited_name_counterexample:
  "getNumDisastersForState [mkDisaster 1 ''constructor''] ''constructor'' = 1
   \<and> getDisasterCounts [mkDisaster 1 ''constructor''] = [(''constructor'', NotANumber)]
   \<and> getNumDisastersForState [mkDisaster 1 ''constructor'', mkDisaster 2 ''constructor'']
        ''constructor'' = 2
   \<and> getDisasterCounts [mkDisaster 1 ''constructor'', mkDisaster 2 ''constructor'']
        = [(''constructor'', Count 1)]
   \<and> getNumDisastersForState [mkDisaster 1 ''__proto__''] ''__proto__'' = 1
   \<and> getDisasterCounts [mkDisaster 1 ''__proto__''] = []"
  by (simp add: getNumDisastersForState_def getDisasterCounts_def countDisaster_def
      initCount_def increment_def objectPrototypeKeys_def mkDisaster_def)

section \<open>Open claims of an agent\<close>

lemma foldl_count_conv:
  "foldl (\<lambda>acc x. if P x then acc + 1 else acc) (k::int) xs = k + int (length (filter P xs))"
  by (induction xs arbitrary: k) simp_all

text \<open>
  C3. \<open>getNumOfOpenClaimsForAgentAndSeverity\<close> returns -1 when the rating is above 10 or
  not positive; \<^verbatim>\<open>null\<close> when the agent has no claim at all; otherwise the number of
  the agent's claims that are not \<^verbatim>\<open>"Closed"\<close> and whose severity is at least the
  rating; so 0 for an agent whose claims at or above the rating are all closed.
\<close>

theorem open_claims_for_agent_and_severity:
  "getNumOfOpenClaimsForAgentAndSeverity cs agentId m =
     (if m > 10 \<or> m \<le> 0 then Some (- 1)
      else if filter (\<lambda>claim. agent_assigned_id claim = agentId) cs = [] then None
      else Some (int (length (filter (\<lambda>claim. agent_assigned_id claim = agentId
                   \<and> status claim \<noteq> ''Closed'' \<and> severity_rating claim \<ge> m) cs))))
   \<and> (0 < m \<and> m \<le> 10 \<and> (\<exists>claim \<in> set cs. agent_assigned_id claim = agentId)
        \<and> (\<forall>claim \<in> set cs. agent_assigned_id claim = agentId \<and> severity_rating claim \<ge> m
               \<longrightarrow> status claim = ''Closed'')
      \<longrightarrow> getNumOfOpenClaimsForAgentAndSeverity cs agentId m = Some 0)"
proof -
  have eq: "getNumOfOpenClaimsForAgentAndSeverity cs agentId m =
     (if m > 10 \<or> m \<le> 0 then Some (- 1)
      else if filter (\<lambda>claim. agent_assigned_id claim = agentId) cs = [] then None
      else Some (int (length (filter (\<lambda>claim. agent_assigned_id claim = agentId
                   \<and> status claim \<noteq> ''Closed'' \<and> severity_rating claim \<ge> m) cs))))"
    by (simp add: getNumOfOpenClaimsForAgentAndSeverity_def Let_def foldl_count_conv
        conj_commute conj_left_commute)
  have closed: "getNumOfOpenClaimsForAgentAndSeverity cs agentId m = Some 0"
    if valid: "0 < m" "m \<le> 10"
      and some: "\<exists>claim \<in> set cs. agent_assigned_id claim = agentId"
      and all_closed: "\<forall>claim \<in> set cs. agent_assigned_id claim = agentId
          \<and> severity_rating claim \<ge> m \<longrightarrow> status claim = ''Closed''"
  proof -
    from some have "filter (\<lambda>claim. agent_assigned_id claim = agentId) cs \<noteq> []"
      by (auto simp: filter_empty_conv)
    moreover from all_closed have "filter (\<lambda>claim. agent_assigned_id claim = agentId
        \<and> status claim \<noteq> ''Closed'' \<and> severity_rating claim \<ge> m) cs = []"
      by (auto simp: filter_empty_conv)
    ultimately show ?thesis using valid by (simp add: eq)
  qed
  from eq closed show ?thesis by blast
qed

theorem open_claims_for_agent_and_severity_witness:
  "getNumOfOpenClaimsForAgentAndSeverity sampleClaims 7 5 = Some 0
   \<and> getNumOfOpenClaimsForAgentAndSeverity sampleClaims 7 3 = Some 1
   \<and> getNumOfOpenClaimsForAgentAndSeverity sampleClaims 7 0 = Some (- 1)
   \<and> getNumOfOpenClaimsForAgentAndSeverity sampleClaims 7 11 = Some (- 1)
   \<and> getNumOfOpenClaimsForAgentAndSeverity sampleClaims 9 5 = None"
  using open_claims_for_agent_and_severity [of sampleClaims 7 5]
    open_claims_for_agent_and_severity [of sampleClaims 7 3]
    open_claims_for_agent_and_severity [of sampleClaims 7 0]
    open_claims_for_agent_and_severity [of sampleClaims 7 11]
    open_claims_for_agent_and_severity [of sampleClaims 9 5]
  by (simp add: sampleClaims_def mkClaim_def)

section \<open>The states with the most and the least disasters\<close>

lemma set_ownKeys: "set (ownKeys obj) = fst ` set obj"
  by (auto simp: ownKeys_def Let_def)

lemma most_loop:
  assumes pos: "\<forall>k\<in>set ks. \<exists>n. map_of idx k = Some (Count n) \<and> 0 < n" and ne: "ks \<noteq> []"
  shows "\<exists>mx b. foldl (mostStep idx) (Count 0, '''') ks = (Count mx, b) \<and> b \<in> set ks
           \<and> map_of idx b = Some (Count mx)
           \<and> (\<forall>k\<in>set ks. \<forall>m. map_of idx k = Some (Count m)
                 \<longrightarrow> m \<le> mx \<and> (m = mx \<longrightarrow> b \<le> k))"
  using assms
proof (induction ks rule: rev_induct)
  case Nil
  then show ?case by simp
next
  case (snoc x xs)
  from snoc.prems obtain n where n: "map_of idx x = Some (Count n)" "0 < n" by auto
  show ?case
  proof (cases "xs = []")
    case True
    with n show ?thesis by (simp add: mostStep_def readCounter_def)
  next
    case False
    with snoc obtain mx b where
      ih: "foldl (mostStep idx) (Count 0, '''') xs = (Count mx, b)" "b \<in> set xs"
      "map_of idx b = Some (Count mx)"
      "\<forall>k\<in>set xs. \<forall>m. map_of idx k = Some (Count m) \<longrightarrow> m \<le> mx \<and> (m = mx \<longrightarrow> b \<le> k)"
      by auto
    have step: "foldl (mostStep idx) (Count 0, '''') (xs @ [x]) =
        (if n > mx then (Count n, x) else if n = mx \<and> x < b then (Count mx, x)
         else (Count mx, b))"
      by (simp add: ih(1)) (simp add: mostStep_def readCounter_def strictEquals_def n)
    show ?thesis
      unfolding step using ih(2-) n by (auto simp: not_less)
  qed
qed

lemma least_loop:
  assumes pos: "\<forall>k\<in>set ks. \<exists>n. map_of idx k = Some (Count n)" and ne: "ks \<noteq> []"
  shows "\<exists>mn b. foldl (leastStep idx) (Infinity, '''') ks = (Count mn, b) \<and> b \<in> set ks
           \<and> map_of idx b = Some (Count mn)
           \<and> (\<forall>k\<in>set ks. \<forall>m. map_of idx k = Some (Count m)
                 \<longrightarrow> mn \<le> m \<and> (m = mn \<longrightarrow> b \<le> k))"
  using assms
proof (induction ks rule: rev_induct)
  case Nil
  then show ?case by simp
next
  case (snoc x xs)
  from snoc.prems obtain n where n: "map_of idx x = Some (Count n)" by auto
  show ?case
  proof (cases "xs = []")
    case True
    with n show ?thesis by (simp add: leastStep_def readCounter_def)
  next
    case False
    with snoc obtain mn b where
      ih: "foldl (leastStep idx) (Infinity, '''') xs = (Count mn, b)" "b \<in> set xs"
      "map_of idx b = Some (Count mn)"
      "\<forall>k\<in>set xs. \<forall>m. map_of idx k = Some (Count m) \<longrightarrow> mn \<le> m \<and> (m = mn \<longrightarrow> b \<le> k)"
      by auto
    have step: "foldl (leastStep idx) (Infinity, '''') (xs @ [x]) =
        (if n < mn then (Count n, x) else if n = mn \<and> x < b then (Count mn, x)
         else (Count mn, b))"
      by (simp add: ih(1)) (simp add: leastStep_def readCounter_def strictEquals_def n)
    show ?thesis
      unfolding step using ih(2-) n by (auto simp: not_less)
  qed
qed

lemma ownKeys_index_entry:
  assumes "\<forall>disaster \<in> set ds. d_state disaster \<notin> set objectPrototypeKeys"
    and "k \<in> set (ownKeys (getDisasterCounts ds))"
  shows "\<exists>n. map_of (getDisasterCounts ds) k = Some (Count n) \<and> 0 < n"
  using assms(2) getNumDisastersForState_zero_iff [of ds k]
  by (auto simp: set_ownKeys index_keys [OF assms(1)] index_entry [OF assms(1)])

lemma ownKeys_index_nonempty:
  assumes "\<forall>disaster \<in> set ds. d_state disaster \<notin> set objectPrototypeKeys" and "ds \<noteq> []"
  shows "ownKeys (getDisasterCounts ds) \<noteq> []"
proof -
  from assms(2) have "d_state ` set ds \<noteq> {}" by simp
  then have "set (ownKeys (getDisasterCounts ds)) \<noteq> {}"
    by (simp add: set_ownKeys index_keys [OF assms(1)])
  then show ?thesis by auto
qed

text \<open>
  C1 (amended). When the Disaster collection is not empty and no record has the name of a
  property of \<^verbatim>\<open>Object.prototype\<close> as its state, \<open>getStateWithMostDisasters\<close> and
  \<open>getStateWithLeastDisasters\<close> each return a state of some Disaster record; the state
  returned has the greatest (respectively the least) count of the index, and among the
  states with that count it is the smallest in the order of strings; a state without a
  disaster is not a key of the index.
\<close>

theorem most_and_least_on_nonempty:
  assumes "ds \<noteq> []"
    and "\<forall>disaster \<in> set ds. d_state disaster \<notin> set objectPrototypeKeys"
  shows "getStateWithMostDisasters ds \<in> d_state ` set ds
    \<and> (\<exists>n. map_of (getDisasterCounts ds) (getStateWithMostDisasters ds) = Some (Count n)
          \<and> (\<forall>s v. map_of (getDisasterCounts ds) s = Some v \<longrightarrow>
                (\<exists>m. v = Count m \<and> m \<le> n \<and> (m = n \<longrightarrow> getStateWithMostDisasters ds \<le> s))))
    \<and> getStateWithLeastDisasters ds \<in> d_state ` set ds
    \<and> (\<exists>n. map_of (getDisasterCounts ds) (getStateWithLeastDisasters ds) = Some (Count n)
          \<and> (\<forall>s v. map_of (getDisasterCounts ds) s = Some v \<longrightarrow>
                (\<exists>m. v = Count m \<and> n \<le> m \<and> (m = n \<longrightarrow> getStateWithLeastDisasters ds \<le> s))))
    \<and> (\<forall>s. getNumDisastersForState ds s = 0 \<longrightarrow> s \<notin> fst ` set (getDisasterCounts ds))"
proof -
  let ?idx = "getDisasterCounts ds"
  let ?ks = "ownKeys ?idx"
  have ne: "?ks \<noteq> []" using assms(2,1) by (rule ownKeys_index_nonempty)
  have pos: "\<forall>k\<in>set ?ks. \<exists>n. map_of ?idx k = Some (Count n) \<and> 0 < n"
    using ownKeys_index_entry [OF assms(2)] by blast
  have key: "s \<in> set ?ks" if "map_of ?idx s = Some v" for s v
    using that by (auto simp: set_ownKeys dest: map_of_SomeD intro: rev_image_eqI)
  have number: "\<exists>m. v = Count m" if s: "map_of ?idx s = Some v" for s v
  proof -
    from pos key [OF s] obtain n where "map_of ?idx s = Some (Count n)" by blast
    with s have "v = Count n" by simp
    then show ?thesis by blast

  qed

  have most: "getStateWithMostDisasters ds \<in> d_state ` set ds
    \<and> (\<exists>n. map_of ?idx (getStateWithMostDisasters ds) = Some (Count n)
          \<and> (\<forall>s v. map_of ?idx s = Some v \<longrightarrow>
                (\<exists>m. v = Count m \<and> m \<le> n \<and> (m = n \<longrightarrow> getStateWithMostDisasters ds \<le> s))))"
  proof -
    from most_loop [OF pos ne] obtain mx b where
      r: "foldl (mostStep ?idx) (Count 0, '''') ?ks = (Count mx, b)" and b: "b \<in> set ?ks"
      and n: "map_of ?idx b = Some (Count mx)"
      and best: "\<forall>k\<in>set ?ks. \<forall>m. map_of ?idx k = Some (Count m)
          \<longrightarrow> m \<le> mx \<and> (m = mx \<longrightarrow> b \<le> k)"
      by blast
    have res: "getStateWithMostDisasters ds = b"
      by (simp add: getStateWithMostDisasters_def Let_def r)
    from b have in_ds: "b \<in> d_state ` set ds" by (simp add: set_ownKeys index_keys [OF assms(2)])
    have "\<exists>m. v = Count m \<and> m \<le> mx \<and> (m = mx \<longrightarrow> b \<le> s)"
      if s: "map_of ?idx s = Some v" for s v
    proof -
      from number [OF s] obtain m where m: "v = Count m" ..
      with best key [OF s] s show ?thesis by auto
    qed
    with in_ds n show ?thesis unfolding res by blast
  qed
  have least: "getStateWithLeastDisasters ds \<in> d_state ` set ds
    \<and> (\<exists>n. map_of ?idx (getStateWithLeastDisasters ds) = Some (Count n)
          \<and> (\<forall>s v. map_of ?idx s = Some v \<longrightarrow>
                (\<exists>m. v = Count m \<and> n \<le> m \<and> (m = n \<longrightarrow> getStateWithLeastDisasters ds \<le> s))))"
  proof -
    from pos have pos': "\<forall>k\<in>set ?ks. \<exists>n. map_of ?idx k = Some (Count n)" by blast
    from least_loop [OF pos' ne] obtain mn b where
      r: "foldl (leastStep ?idx) (Infinity, '''') ?ks = (Count mn, b)" and b: "b \<in> set ?ks"
      and n: "map_of ?idx b = Some (Count mn)"
      and best: "\<forall>k\<in>set ?ks. \<forall>m. map_of ?idx k = Some (Count m)
          \<longrightarrow> mn \<le> m \<and> (m = mn \<longrightarrow> b \<le> k)"
      by blast
    have res: "getStateWithLeastDisasters ds = b"
      by (simp add: getStateWithLeastDisasters_def Let_def r)
    from b have in_ds: "b \<in> d_state ` set ds" by (simp add: set_ownKeys index_keys [OF assms(2)])
    have "\<exists>m. v = Count m \<and> mn \<le> m \<and> (m = mn \<longrightarrow> b \<le> s)"
      if s: "map_of ?idx s = Some v" for s v
    proof -
      from number [OF s] obtain m where m: "v = Count m" ..
      with best key [OF s] s show ?thesis by auto
    qed
    with in_ds n show ?thesis unfolding res by blast
  qed
  have absent: "\<forall>s. getNumDisastersForState ds s = 0 \<longrightarrow> s \<notin> fst ` set ?idx"
    by (simp add: index_keys [OF assms(2)] getNumDisastersForState_zero_iff)
  from most least absent show ?thesis by blast
qed

theorem most_and_least_on_nonempty_witness:
  "sampleDisasters \<noteq> []
   \<and> getStateWithMostDisasters sampleDisasters \<in> d_state ` set sampleDisasters
   \<and> getStateWithLeastDisasters sampleDisasters \<in> d_state ` set sampleDisasters
   \<and> getStateWithMostDisasters sampleDisasters = ''Ohio''
   \<and> getStateWithLeastDisasters sampleDisasters = ''Iowa''"
proof -
  have ne: "sampleDisasters \<noteq> []" by (simp add: sampleDisasters_def)
  have names: "\<forall>disaster \<in> set sampleDisasters. d_state disaster \<notin> set objectPrototypeKeys"
    by (simp add: sampleDisasters_def mkDisaster_def objectPrototypeKeys_def)
  have most: "getStateWithMostDisasters sampleDisasters = ''Ohio''" by code_simp
  have least: "getStateWithLeastDisasters sampleDisasters = ''Iowa''" by code_simp
  from most_and_least_on_nonempty [OF ne names] ne most least show ?thesis by simp
qed

text \<open>
  C1 as stated fails on the empty collection, and on a collection whose only state is
  named as a property of \<^verbatim>\<open>Object.prototype\<close>: both queries return the empty string,
  which is the state of no record.
\<close>

theorem most_and_least_counterexample:
  "getStateWithMostDisasters [] = '''' \<and> getStateWithLeastDisasters [] = ''''
   \<and> '''' \<notin> d_state ` set ([] :: Disaster list)
   \<and> getStateWithMostDisasters [mkDisaster 1 ''constructor''] = ''''
   \<and> getStateWithLeastDisasters [mkDisaster 1 ''constructor''] = ''''
   \<and> '''' \<notin> d_state ` set [mkDisaster 1 ''constructor'']"
  by (simp add: getStateWithMostDisasters_def getStateWithLeastDisasters_def
      getDisasterCounts_def countDisaster_def initCount_def increment_def
      objectPrototypeKeys_def mkDisaster_def ownKeys_def isArrayIndex_def mostStep_def
      leastStep_def readCounter_def strictEquals_def)

text \<open>
  C10. When the Disaster collection is empty, both queries return the empty string.
\<close>

theorem most_and_least_of_empty_collection:
  "getStateWithMostDisasters [] = '''' \<and> getStateWithLeastDisasters [] = ''''"
  by (simp add: getStateWithMostDisasters_def getStateWithLeastDisasters_def
      getDisasterCounts_def ownKeys_def)

section \<open>The most spoken language of a state\<close>

lemma map_filter_snoc:
  "List.map_filter g (xs @ [x]) =
     List.map_filter g xs @ (case g x of None \<Rightarrow> [] | Some y \<Rightarrow> [y])"
  by (simp add: List.map_filter_def split: option.splits)

lemma tally_loop:
  assumes "set (List.map_filter talliedLanguage ags) \<inter> set objectPrototypeKeys = {}"
  shows "\<exists>f mx b. foldl tallyAgent ([], Count 0, '''') ags = (f, Count mx, b)
     \<and> (\<forall>l. map_of f l = (if count_list (List.map_filter talliedLanguage ags) l = 0 then None
                          else Some (Count (count_list (List.map_filter talliedLanguage ags) l))))
     \<and> (if List.map_filter talliedLanguage ags = [] then mx = 0 \<and> b = ''''
         else b \<in> set (List.map_filter talliedLanguage ags)
           \<and> count_list (List.map_filter talliedLanguage ags) b = mx
           \<and> (\<forall>l. count_list (List.map_filter talliedLanguage ags) l \<le> mx
                  \<and> (count_list (List.map_filter talliedLanguage ags) l = mx \<longrightarrow> b \<le> l)))"
  using assms
proof (induction ags rule: rev_induct)
  case Nil
  show ?case by (simp add: map_filter_simps)
next
  case (snoc a ags)
  let ?L = "List.map_filter talliedLanguage ags"
  from snoc.prems have "set ?L \<inter> set objectPrototypeKeys = {}"
    by (auto simp: map_filter_snoc)
  with snoc.IH obtain f mx b where r: "foldl tallyAgent ([], Count 0, '''') ags = (f, Count mx, b)"
    and f: "\<forall>l. map_of f l = (if count_list ?L l = 0 then None
                              else Some (Count (count_list ?L l)))"
    and best: "if ?L = [] then mx = 0 \<and> b = ''''
         else b \<in> set ?L \<and> count_list ?L b = mx
           \<and> (\<forall>l. count_list ?L l \<le> mx \<and> (count_list ?L l = mx \<longrightarrow> b \<le> l))"
    by blast
  show ?case
  proof (cases "talliedLanguage a")
    case None
    then have same: "tallyAgent (f, Count mx, b) a = (f, Count mx, b)"
      by (auto simp: tallyAgent_def talliedLanguage_def split: option.splits if_splits)
    have L: "List.map_filter talliedLanguage (ags @ [a]) = ?L"
      by (simp add: map_filter_snoc None)
    show ?thesis unfolding L using r f best same by simp
  next
    case (Some l)
    then have sl: "secondary_language a = Some l" "l \<noteq> ''''" "l \<noteq> ''English''"
      by (auto simp: talliedLanguage_def split: option.splits if_splits)
    have L: "List.map_filter talliedLanguage (ags @ [a]) = ?L @ [l]"
      by (simp add: map_filter_snoc Some)
    from snoc.prems have own: "l \<notin> set objectPrototypeKeys"
      by (auto simp: L)
    let ?n = "count_list ?L l + 1"
    let ?f = "increment l (initCount l f)"
    have fl: "map_of ?f = (map_of f)(l \<mapsto> Count ?n)"
      using map_of_increment_initCount [OF own, of f "count_list ?L l"] f by simp
    have le: "count_list ?L l \<le> mx"
      using best by (cases "?L = []") auto
    have step: "tallyAgent (f, Count mx, b) a =
        (if ?n > mx then (?f, Count ?n, l) else if ?n = mx \<and> l < b then (?f, Count mx, l)
         else (?f, Count mx, b))"
      by (simp add: tallyAgent_def sl Let_def readCounter_def strictEquals_def fl)
    have res: "foldl tallyAgent ([], Count 0, '''') (ags @ [a]) =
        (if ?n > mx then (?f, Count ?n, l) else if ?n = mx \<and> l < b then (?f, Count mx, l)
         else (?f, Count mx, b))"
      by (simp add: r step)
    have f': "\<forall>k. map_of ?f k = (if count_list (?L @ [l]) k = 0 then None
                          else Some (Count (count_list (?L @ [l]) k)))"
      using f by (simp add: fl)
    define c where "c = count_list ?L"
    have c': "count_list (?L @ [l]) k = (if k = l then c l + 1 else c k)" for k
      by (simp add: c_def)
    have in_set: "l \<in> set (?L @ [l])" by simp
    have le_mx: "?L \<noteq> [] \<Longrightarrow> c k \<le> mx" for k
      using best by (auto simp: c_def)
    have tie_b: "?L \<noteq> [] \<Longrightarrow> c k = mx \<Longrightarrow> b \<le> k" for k
      using best by (auto simp: c_def)
    have b_in: "?L \<noteq> [] \<Longrightarrow> b \<in> set ?L \<and> c b = mx"
      using best by (auto simp: c_def)
    have empty: "?L = [] \<Longrightarrow> mx = 0 \<and> b = '''' \<and> c k = 0" for k
      using best by (auto simp: c_def)
    have cl: "c l \<le> mx" using le by (simp add: c_def)
    consider (A) "c l + 1 > mx" | (B) "c l + 1 = mx" "l < b"
      | (C) "\<not> c l + 1 > mx" "\<not> (c l + 1 = mx \<and> l < b)" by blast
    then show ?thesis
    proof cases
      case A
      with cl have eq: "c l = mx" by simp
      have r': "foldl tallyAgent ([], Count 0, '''') (ags @ [a]) = (?f, Count (c l + 1), l)"
        using A by (simp add: res c_def del: foldl_append)
      have bound: "count_list (?L @ [l]) k \<le> c l + 1
          \<and> (count_list (?L @ [l]) k = c l + 1 \<longrightarrow> l \<le> k)" for k
      proof (cases "k = l")
        case True
        then show ?thesis by (simp add: c' del: count_list_append)
      next
        case False
        have "c k \<le> mx"
          by (cases "?L = []") (simp_all add: empty le_mx)
        with False eq show ?thesis by (simp add: c' del: count_list_append)
      qed
      show ?thesis
        unfolding L r' using f' in_set bound by (simp add: c' del: count_list_append)
    next
      case B
      then have ne: "?L \<noteq> []" using empty [of l] by auto
      have r': "foldl tallyAgent ([], Count 0, '''') (ags @ [a]) = (?f, Count mx, l)"
        using B by (simp add: res c_def del: foldl_append)
      have bound: "count_list (?L @ [l]) k \<le> mx
          \<and> (count_list (?L @ [l]) k = mx \<longrightarrow> l \<le> k)" for k
      proof (cases "k = l")
        case True
        then show ?thesis using B by (simp add: c' del: count_list_append)
      next
        case False
        have "c k = mx \<Longrightarrow> l \<le> k"
          using tie_b [OF ne, of k] B(2) by simp
        with False le_mx [OF ne, of k] show ?thesis by (simp add: c' del: count_list_append)
      qed
      have "count_list (?L @ [l]) l = mx" using B by (simp add: c' del: count_list_append)
      with bound show ?thesis
        unfolding L r' using f' in_set by simp
    next
      case C
      then have ne: "?L \<noteq> []" using empty [of l] by auto
      have r': "foldl tallyAgent ([], Count 0, '''') (ags @ [a]) = (?f, Count mx, b)"
        using C unfolding res c_def by auto
      from b_in [OF ne] have bb: "b \<in> set ?L" "c b = mx" by auto
      have "b \<noteq> l" using C(1) bb(2) by auto
      then have cb: "count_list (?L @ [l]) b = mx" using bb by (simp add: c' del: count_list_append)
      have bound: "count_list (?L @ [l]) k \<le> mx
          \<and> (count_list (?L @ [l]) k = mx \<longrightarrow> b \<le> k)" for k
      proof (cases "k = l")
        case True
        then show ?thesis using C by (auto simp: c' not_less simp del: count_list_append)
      next
        case False
        with le_mx [OF ne, of k] tie_b [OF ne, of k] show ?thesis by (simp add: c' del: count_list_append)
      qed
      show ?thesis
        unfolding L r' using f' bb(1) cb bound by simp
    qed
  qed
qed

lemma count_talliedLanguages:
  "count_list (talliedLanguages agents state) l = languageTally agents state l"
proof (induction agents)
  case Nil
  show ?case by (simp add: talliedLanguages_def languageTally_def map_filter_simps)
next
  case (Cons a agents)
  then show ?case
    by (auto simp: talliedLanguages_def languageTally_def map_filter_simps talliedLanguage_def
        split: option.splits)
qed

lemma talliedLanguages_empty_iff:
  "talliedLanguages agents state = [] \<longleftrightarrow> (\<forall>l. languageTally agents state l = 0)"
proof
  assume "talliedLanguages agents state = []"
  then show "\<forall>l. languageTally agents state l = 0"
    using count_talliedLanguages [of agents state] by simp
next
  assume zero: "\<forall>l. languageTally agents state l = 0"
  show "talliedLanguages agents state = []"
  proof (cases "talliedLanguages agents state")
    case Nil
    then show ?thesis .
  next
    case (Cons l ls)
    then have "count_list (talliedLanguages agents state) l > 0" by simp
    with zero show ?thesis by (simp add: count_talliedLanguages)
  qed
qed

lemma talliedLanguages_own:
  assumes "\<forall>l \<in> set objectPrototypeKeys. languageTally agents state l = 0"
  shows "set (talliedLanguages agents state) \<inter> set objectPrototypeKeys = {}"
proof -
  have "l \<notin> set (talliedLanguages agents state)" if "l \<in> set objectPrototypeKeys" for l
  proof -
    from assms that have "count_list (talliedLanguages agents state) l = 0"
      by (simp add: count_talliedLanguages)
    then show ?thesis using count_list_0_iff [of "talliedLanguages agents state" l] by simp
  qed
  then show ?thesis by auto
qed

text \<open>
  C5 (amended). \<open>getMostSpokenAgentLanguageByState\<close> tallies the agents of the state only
  and leaves out a secondary language that is absent, empty or \<^verbatim>\<open>"English"\<close>. It returns
  the empty string when the state has no agent and when no agent of the state has a
  language that is tallied. When no language tallied in the state is the name of a
  property of \<^verbatim>\<open>Object.prototype\<close>, it returns a language with the greatest tally, the
  smallest in the order of strings among those.
\<close>

theorem most_spoken_language:
  "((\<forall>l. languageTally agents state l = 0) \<longrightarrow>
      getMostSpokenAgentLanguageByState agents state = '''')
   \<and> (filter (\<lambda>agent. a_state agent = state) agents = [] \<longrightarrow>
      getMostSpokenAgentLanguageByState agents state = '''')
   \<and> ((\<exists>l. 0 < languageTally agents state l)
        \<and> (\<forall>l \<in> set objectPrototypeKeys. languageTally agents state l = 0) \<longrightarrow>
        0 < languageTally agents state (getMostSpokenAgentLanguageByState agents state)
        \<and> (\<forall>l. languageTally agents state l
                 \<le> languageTally agents state (getMostSpokenAgentLanguageByState agents state)
               \<and> (languageTally agents state l
                    = languageTally agents state (getMostSpokenAgentLanguageByState agents state)
                  \<longrightarrow> getMostSpokenAgentLanguageByState agents state \<le> l)))"
proof -
  let ?ags = "filter (\<lambda>agent. a_state agent = state) agents"
  let ?L = "talliedLanguages agents state"
  let ?r = "getMostSpokenAgentLanguageByState agents state"
  have L: "List.map_filter talliedLanguage ?ags = ?L" by (simp add: talliedLanguages_def)
  have loop: "\<exists>mx b. ?r = (if ?ags = [] then '''' else b)
      \<and> (if ?L = [] then mx = 0 \<and> b = ''''
         else b \<in> set ?L \<and> count_list ?L b = mx
           \<and> (\<forall>l. count_list ?L l \<le> mx \<and> (count_list ?L l = mx \<longrightarrow> b \<le> l)))"
    if own: "set ?L \<inter> set objectPrototypeKeys = {}"
  proof -
    from tally_loop [of ?ags] own obtain f mx b where
      r: "foldl tallyAgent ([], Count 0, '''') ?ags = (f, Count mx, b)"
      and best: "if ?L = [] then mx = 0 \<and> b = ''''
         else b \<in> set ?L \<and> count_list ?L b = mx
           \<and> (\<forall>l. count_list ?L l \<le> mx \<and> (count_list ?L l = mx \<longrightarrow> b \<le> l))"
      unfolding L by blast
    have "?r = (if ?ags = [] then '''' else b)"
      by (simp add: getMostSpokenAgentLanguageByState_def Let_def r)
    with best show ?thesis by blast
  qed
  have none: "(\<forall>l. languageTally agents state l = 0) \<longrightarrow> ?r = ''''"
  proof
    assume "\<forall>l. languageTally agents state l = 0"
    then have empty: "?L = []" by (simp add: talliedLanguages_empty_iff)
    then have "set ?L \<inter> set objectPrototypeKeys = {}" by simp
    from loop [OF this] empty show "?r = ''''" by auto
  qed
  have empty: "?ags = [] \<longrightarrow> ?r = ''''"
    by (simp add: getMostSpokenAgentLanguageByState_def)
  have some: "0 < languageTally agents state ?r
        \<and> (\<forall>l. languageTally agents state l \<le> languageTally agents state ?r
               \<and> (languageTally agents state l = languageTally agents state ?r \<longrightarrow> ?r \<le> l))"
    if tallied: "\<exists>l. 0 < languageTally agents state l"
      and own: "\<forall>l \<in> set objectPrototypeKeys. languageTally agents state l = 0"
  proof -
    from tallied have ne: "?L \<noteq> []" by (auto simp: talliedLanguages_empty_iff)
    then have agents: "?ags \<noteq> []"
      by (auto simp: talliedLanguages_def map_filter_simps)
    from loop [OF talliedLanguages_own [OF own]] ne agents obtain mx where
      b: "?r \<in> set ?L" "count_list ?L ?r = mx"
      "\<forall>l. count_list ?L l \<le> mx \<and> (count_list ?L l = mx \<longrightarrow> ?r \<le> l)" by auto
    from b(1) have "0 < count_list ?L ?r"
      using count_list_0_iff [of ?L ?r] by simp
    with b show ?thesis by (simp add: count_talliedLanguages)
  qed
  from none empty some show ?thesis by blast
qed

theorem most_spoken_language_witness:
  "getMostSpokenAgentLanguageByState sampleAgents ''Texas'' = ''French''
   \<and> languageTally sampleAgents ''Texas'' ''French'' = 2
   \<and> languageTally sampleAgents ''Texas'' ''Spanish'' = 2
   \<and> languageTally sampleAgents ''Texas'' ''Spanish''
       \<le> languageTally sampleAgents ''Texas''
            (getMostSpokenAgentLanguageByState sampleAgents ''Texas'')
   \<and> getMostSpokenAgentLanguageByState sampleAgents ''Utah'' = ''''
   \<and> getMostSpokenAgentLanguageByState sampleAgents ''Iowa'' = ''''"
proof -
  have tex: "getMostSpokenAgentLanguageByState sampleAgents ''Texas'' = ''French''"
    by code_simp
  have fr: "languageTally sampleAgents ''Texas'' ''French'' = 2" by code_simp
  have sp: "languageTally sampleAgents ''Texas'' ''Spanish'' = 2" by code_simp
  have some: "\<exists>l. 0 < languageTally sampleAgents ''Texas'' l"
    using fr by (intro exI [of _ "''French''"]) simp
  have own: "\<forall>l \<in> set objectPrototypeKeys. languageTally sampleAgents ''Texas'' l = 0"
    by (simp add: objectPrototypeKeys_def languageTally_def sampleAgents_def mkAgent_def)
  have none: "\<forall>l. languageTally sampleAgents ''Utah'' l = 0"
    by (auto simp: languageTally_def sampleAgents_def mkAgent_def)
  have empty: "filter (\<lambda>agent. a_state agent = ''Iowa'') sampleAgents = []"
    by (simp add: sampleAgents_def mkAgent_def)
  have le: "languageTally sampleAgents ''Texas'' ''Spanish''
       \<le> languageTally sampleAgents ''Texas''
            (getMostSpokenAgentLanguageByState sampleAgents ''Texas'')"
    using most_spoken_language [of sampleAgents "''Texas''", THEN conjunct2, THEN conjunct2,
        THEN mp, OF conjI, OF some own] by blast
  have utah: "getMostSpokenAgentLanguageByState sampleAgents ''Utah'' = ''''"
    by (rule most_spoken_language [of sampleAgents "''Utah''", THEN conjunct1, THEN mp,
        OF none])
  have iowa: "getMostSpokenAgentLanguageByState sampleAgents ''Iowa'' = ''''"
    by (rule most_spoken_language [of sampleAgents "''Iowa''", THEN conjunct2, THEN conjunct1,
        rule_format, OF empty])
  from tex fr sp le utah iowa show ?thesis by (intro conjI)
qed

text \<open>
  C5 as stated fails on a language named as a property of \<^verbatim>\<open>Object.prototype\<close>: of two
  agents with \<^verbatim>\<open>toString\<close> and one with French, the first leaves \<^verbatim>\<open>NaN\<close> in the
  frequency object and the second 1, and French, with the tally 1, is returned.
\<close>

theorem most_spoken_language_counterexample:
  "getMostSpokenAgentLanguageByState
     [mkAgent 1 ''Texas'' (Some ''toString''), mkAgent 2 ''Texas'' (Some ''toString''),
      mkAgent 3 ''Texas'' (Some ''French'')] ''Texas'' = ''French''
   \<and> languageTally
     [mkAgent 1 ''Texas'' (Some ''toString''), mkAgent 2 ''Texas'' (Some ''toString''),
      mkAgent 3 ''Texas'' (Some ''French'')] ''Texas'' ''toString'' = 2
   \<and> languageTally
     [mkAgent 1 ''Texas'' (Some ''toString''), mkAgent 2 ''Texas'' (Some ''toString''),
      mkAgent 3 ''Texas'' (Some ''French'')] ''Texas'' ''French'' = 1"
  by (simp add: getMostSpokenAgentLanguageByState_def tallyAgent_def initCount_def
      increment_def objectPrototypeKeys_def readCounter_def strictEquals_def mkAgent_def
      languageTally_def Let_def)

section \<open>Rounding to binary64\<close>

lemma powi2_less_iff: "(2::rat) powi x < 2 powi y \<longleftrightarrow> x < y"
  by (metis linorder_not_less numeral_One numeral_less_iff order_less_le power_int_increasing power_int_strict_increasing semiring_norm(76))

lemma powi2_le_iff: "(2::rat) powi x \<le> 2 powi y \<longleftrightarrow> x \<le> y"
  by (metis linorder_not_less powi2_less_iff)

lemma bitlen_pos: "0 < k \<Longrightarrow> 0 < bitlen k"
  using bitlen_eq_zero_iff [of k] bitlen_nonneg [of k] by linarith

lemma bitlen_bounds_rat:
  assumes "0 < k"
  shows "(2::rat) powi (bitlen k - 1) \<le> of_int k" "of_int k < (2::rat) powi bitlen k"
proof -
  from bitlen_bounds [OF assms] have b: "2 ^ nat (bitlen k - 1) \<le> k" "k < 2 ^ nat (bitlen k)"
    by auto
  have pos: "0 < bitlen k" using assms by (rule bitlen_pos)
  have "(2::rat) powi (bitlen k - 1) = of_int (2 ^ nat (bitlen k - 1))"
    using pos by (simp add: power_int_def)
  also have "\<dots> \<le> of_int k" using b(1) by (simp only: of_int_le_iff)
  finally show "(2::rat) powi (bitlen k - 1) \<le> of_int k" .
  have "(of_int k :: rat) < of_int (2 ^ nat (bitlen k))" using b(2) by (simp only: of_int_less_iff)
  also have "\<dots> = 2 powi bitlen k" using pos by (simp add: power_int_def)
  finally show "of_int k < (2::rat) powi bitlen k" .
qed

lemma ilog2_bounds:
  assumes "0 < a"
  shows "2 powi (ilog2 a) \<le> a \<and> a < 2 powi (ilog2 a + 1)"
proof (cases "1 \<le> a")
  case True
  then have k: "0 < \<lfloor>a\<rfloor>" by simp
  have e: "ilog2 a = bitlen \<lfloor>a\<rfloor> - 1" using True by (simp add: ilog2_def)
  from bitlen_bounds_rat [OF k] have "2 powi (bitlen \<lfloor>a\<rfloor> - 1) \<le> (of_int \<lfloor>a\<rfloor> :: rat)"
    "(of_int \<lfloor>a\<rfloor> :: rat) < 2 powi bitlen \<lfloor>a\<rfloor>" by auto
  then have "2 powi (bitlen \<lfloor>a\<rfloor> - 1) \<le> a"
    using of_int_floor_le [of a] by linarith
  moreover have "a < 2 powi bitlen \<lfloor>a\<rfloor>"

  proof -
    have "0 < bitlen \<lfloor>a\<rfloor>" using k by (rule bitlen_pos)
    then have "(2::rat) powi bitlen \<lfloor>a\<rfloor> = of_int (2 ^ nat (bitlen \<lfloor>a\<rfloor>))"
      by (simp add: power_int_def)
    moreover have "\<lfloor>a\<rfloor> < 2 ^ nat (bitlen \<lfloor>a\<rfloor>)" using bitlen_bounds [OF k] by simp
    ultimately show ?thesis by (simp add: floor_less_iff)
  qed
  ultimately show ?thesis by (simp add: e)
next
  case False
  define x where "x = 1 / a"
  have x: "1 < x" using False assms by (simp add: x_def)
  define c where "c = \<lceil>x\<rceil>"
  have c: "of_int c - 1 < x" "x \<le> of_int c" by (simp_all add: c_def) linarith
  have c1: "0 < c - 1" using x c(2) by linarith
  have e: "ilog2 a = - bitlen (c - 1)" using False by (simp add: ilog2_def c_def x_def)
  define b where "b = bitlen (c - 1)"
  from bitlen_bounds_rat [OF c1] have bb: "2 powi (b - 1) \<le> (of_int (c - 1) :: rat)"
    "(of_int (c - 1) :: rat) < 2 powi b" by (auto simp: b_def)
  have bpos: "0 < b" using c1 by (simp add: b_def bitlen_pos)
  have "c - 1 < 2 ^ nat b" using bitlen_bounds [OF c1] by (simp add: b_def)
  then have "c \<le> 2 ^ nat b" by simp
  then have "(of_int c :: rat) \<le> of_int (2 ^ nat b)" by (simp only: of_int_le_iff)
  also have "\<dots> = 2 powi b" using bpos by (simp add: power_int_def)
  finally have up: "x \<le> 2 powi b" using c(2) by simp
  have lo: "2 powi (b - 1) < x" using bb(1) c(1) by simp
  have "2 powi (- b) \<le> a"
  proof -
    have "1 / (2 powi b) \<le> 1 / x" using up x by (simp add: frac_le)
    then show ?thesis using assms by (simp add: x_def power_int_minus_divide)
  qed
  moreover have "a < 2 powi (- b + 1)"
  proof -
    have "0 < (2::rat) powi (b - 1)" by simp
    then have "1 / x < 1 / (2 powi (b - 1))" using lo by (simp add: frac_less2)
    moreover have "1 / ((2::rat) powi (b - 1)) = 2 powi (- b + 1)"
      by (simp add: power_int_minus_divide [symmetric])
    ultimately show ?thesis using assms by (simp add: x_def)
  qed
  ultimately show ?thesis by (simp add: e b_def)
qed

lemma ilog2_unique:
  assumes "0 < a" "2 powi e \<le> a" "a < 2 powi (e + 1)"
  shows "ilog2 a = e"
proof -
  from ilog2_bounds [OF assms(1)] have b: "2 powi (ilog2 a) \<le> a" "a < 2 powi (ilog2 a + 1)"
    by auto
  from b(1) assms(3) have "(2::rat) powi (ilog2 a) < 2 powi (e + 1)" by simp
  then have "ilog2 a < e + 1" by (simp only: powi2_less_iff)
  moreover from assms(2) b(2) have "(2::rat) powi e < 2 powi (ilog2 a + 1)" by simp
  then have "e < ilog2 a + 1" by (simp only: powi2_less_iff)
  ultimately show ?thesis by simp
qed

lemma round64_normal:
  assumes "0 < q" "2 powi e \<le> q" "q < 2 powi (e + 1)" "- 1022 \<le> e"
    and "roundHalfEven (q / 2 powi (e - 52)) = n"
    and "of_int n * 2 powi (e - 52) < (2::rat) powi 1024"
  shows "round64 q = Fin (of_int n * 2 powi (e - 52))"
proof -
  have e: "ilog2 q = e" using assms(1-3) by (rule ilog2_unique)
  have q: "q \<noteq> 0" "\<bar>q\<bar> = q" using assms(1) by auto
  have m: "max e (- 1022) = e" using assms(4) by simp
  show ?thesis
    unfolding round64_def Let_def q e m using assms(1,5,6) q(1) by (simp add: not_le)
qed

lemma floor_rat_numeral_divide:
  "\<lfloor>(numeral a :: rat) / numeral b\<rfloor> = numeral a div numeral b"
  using floor_divide_of_int_eq [of "numeral a" "numeral b", where ?'a = rat] by simp

lemma round64_100: "round64 100 = Fin 100"
  using round64_normal [of 100 6 7036874417766400]
  by (simp add: roundHalfEven_def Let_def floor_rat_numeral_divide)

lemma round64_350: "round64 350 = Fin 350"
  using round64_normal [of 350 8 6157265115545600]
  by (simp add: roundHalfEven_def Let_def floor_rat_numeral_divide)

lemma foldl_costs:
  "foldl (\<lambda>acc claim. num_add acc (estimate_cost claim)) z xs
     = foldl num_add z (map estimate_cost xs)"
  by (induction xs arbitrary: z) simp_all

lemma toFixed_nearest:
  fixes t :: rat and f :: nat
  defines "n \<equiv> \<lfloor>\<bar>t\<bar> * 10 ^ f + 1 / 2\<rfloor>"
  defines "d \<equiv> sgn t * of_int n / 10 ^ f"
  shows "\<bar>d - t\<bar> \<le> 1 / (2 * 10 ^ f)" and "\<bar>d - t\<bar> = 1 / (2 * 10 ^ f) \<Longrightarrow> \<bar>t\<bar> < \<bar>d\<bar>"
proof -
  define p :: rat where "p = 10 ^ f"
  have p: "0 < p" by (simp add: p_def)
  define x where "x = \<bar>t\<bar> * p"
  have n: "of_int n \<le> x + 1 / 2" "x + 1 / 2 < of_int n + 1"
    unfolding n_def x_def p_def by linarith+
  have x0: "0 \<le> x" by (simp add: x_def p_def)
  have n0: "0 \<le> n" unfolding n_def by (simp add: p_def)
  have dt: "d - t = sgn t * (of_int n - x) / p"
  proof -
    have "t = sgn t * \<bar>t\<bar>" by (simp add: sgn_mult_abs)
    then have "t = sgn t * x / p" using p by (simp add: x_def)
    then show ?thesis unfolding d_def p_def [symmetric]
      by (metis diff_divide_distrib right_diff_distrib)
  qed
  define s where "s = \<bar>sgn t\<bar>"
  have abs_dt: "\<bar>d - t\<bar> = s * \<bar>of_int n - x\<bar> / p"
    using p unfolding s_def dt by (simp only: abs_mult abs_divide abs_of_pos)
  have sgn_le: "s \<le> 1" "0 \<le> s" by (simp_all add: s_def abs_sgn_eq)
  have s1: "t \<noteq> 0 \<Longrightarrow> s = 1" by (simp add: s_def abs_sgn_eq)
  have s0: "t = 0 \<Longrightarrow> s = 0" by (simp add: s_def)
  have diff: "\<bar>of_int n - x\<bar> \<le> 1 / 2" using n by linarith
  have "s * \<bar>of_int n - x\<bar> \<le> 1 * (1 / 2)"
    using sgn_le diff by (intro mult_mono) simp_all
  then have "s * \<bar>of_int n - x\<bar> / p \<le> (1 * (1 / 2)) / p"
    using p by (intro divide_right_mono) simp_all
  then have "\<bar>d - t\<bar> \<le> (1 / 2) / p"
    unfolding abs_dt by (simp only: mult_1)
  then show "\<bar>d - t\<bar> \<le> 1 / (2 * 10 ^ f)" by (simp add: p_def)
  show "\<bar>t\<bar> < \<bar>d\<bar>" if tie: "\<bar>d - t\<bar> = 1 / (2 * 10 ^ f)"
  proof -
    from tie have "s * \<bar>of_int n - x\<bar> / p = (1 / 2) / p"
      by (simp add: abs_dt p_def)
    then have e: "s * \<bar>of_int n - x\<bar> = 1 / 2" using p by (simp add: field_simps)

    have t0: "t \<noteq> 0"
    proof
      assume "t = 0"
      then have "s = 0" by (rule s0)
      with e show False by simp
    qed
    from e s1 [OF t0] have "\<bar>of_int n - x\<bar> = 1 / 2" by simp
    with n have nx: "of_int n = x + 1 / 2" by linarith
    have "\<bar>d\<bar> = of_int n / p"
      using t0 n0 p by (simp add: d_def p_def abs_mult abs_sgn_eq)
    also have "\<dots> = \<bar>t\<bar> + (1 / 2) / p" using p by (simp add: nx x_def add_divide_distrib)
    finally show ?thesis using p by simp
  qed
qed

lemma parseFloat_toFixed_finite:
  assumes "\<bar>t\<bar> < 10 ^ 21"
  shows "\<exists>n::int. parseFloat (toFixed (Fin t) f) = round64 (of_int n / 10 ^ f)
           \<and> \<bar>of_int n / 10 ^ f - t\<bar> \<le> 1 / (2 * 10 ^ f)
           \<and> (\<bar>of_int n / 10 ^ f - t\<bar> = 1 / (2 * 10 ^ f) \<longrightarrow> \<bar>t\<bar> < \<bar>of_int n / 10 ^ f\<bar>)"
proof -
  define m where "m = \<lfloor>\<bar>t\<bar> * 10 ^ f + 1 / 2\<rfloor>"
  define n where "n = (if 0 \<le> t then m else - m)"
  have d: "sgn t * of_int m / 10 ^ f = (of_int n :: rat) / 10 ^ f"
  proof (cases "t = 0")
    case True
    have "\<lfloor>(1::rat) / 2\<rfloor> = 0" by (rule floor_unique) simp_all
    then have "m = 0" by (simp add: m_def True)

    then show ?thesis by (simp add: n_def True)
  next
    case False
    then show ?thesis by (auto simp: n_def sgn_if)
  qed
  have val: "parseFloat (toFixed (Fin t) f) = round64 (of_int n / 10 ^ f)"
    using assms by (simp add: toFixed_def parseFloat_def m_def [symmetric] d)
  from toFixed_nearest [of t f] show ?thesis
    unfolding m_def [symmetric] d using val by blast
qed

lemma parseFloat_toFixed_zero: "parseFloat (toFixed (Fin 0) f) = Fin 0"
  by (simp add: toFixed_def parseFloat_def round64_def)

section \<open>The total claim cost of a disaster\<close>

lemma literal_10_005: "round64 (10005 / 1000) = Fin (5632314283980227 / 562949953421312)"
  using round64_normal [of "10005 / 1000" 3 5632314283980227]
  by (simp add: roundHalfEven_def Let_def floor_rat_numeral_divide)

lemma literal_15_01: "round64 (1501 / 100) = Fin (8449878800853893 / 562949953421312)"
  using round64_normal [of "1501 / 100" 3 8449878800853893]
  by (simp add: roundHalfEven_def Let_def floor_rat_numeral_divide)

lemma literal_0_01273:
  "round64 (1273 / 100000) = Fin (7338345376822581 / 576460752303423488)"
  using round64_normal [of "1273 / 100000" "- 7" 7338345376822581]
  by (simp add: roundHalfEven_def Let_def floor_rat_numeral_divide)

lemma sum_10_005_and_5:

  "foldl num_add (Fin 0) [Fin (5632314283980227 / 562949953421312), Fin 5]
     = Fin (8447064051086787 / 562949953421312)"
proof -
  have a: "round64 (5632314283980227 / 562949953421312)
      = Fin (5632314283980227 / 562949953421312)"
    using round64_normal [of "5632314283980227 / 562949953421312" 3 5632314283980227]
    by (simp add: roundHalfEven_def Let_def floor_rat_numeral_divide)
  have b: "round64 (8447064051086787 / 562949953421312)
      = Fin (8447064051086787 / 562949953421312)"
    using round64_normal [of "8447064051086787 / 562949953421312" 3 8447064051086787]
    by (simp add: roundHalfEven_def Let_def floor_rat_numeral_divide)
  show ?thesis by (simp add: a b)
qed

lemma toFixed_15_005:
  "toFixed (Fin (8447064051086787 / 562949953421312)) 2 = Decimal (1501 / 100)"
  by (simp add: toFixed_def floor_rat_numeral_divide)

lemma getTotalClaimCostForDisaster_eq:
  "getTotalClaimCostForDisaster cs d =
     (if filter (\<lambda>claim. disaster_id claim = d) cs = [] then None
      else Some (parseFloat (toFixed
             (foldl num_add (Fin 0)
                (map estimate_cost (filter (\<lambda>claim. disaster_id claim = d) cs))) 2)))"
  by (simp add: getTotalClaimCostForDisaster_def Let_def foldl_costs)

text \<open>
  C8. \<open>getTotalClaimCostForDisaster\<close> returns \<^verbatim>\<open>null\<close> when no claim has the disaster id;
  otherwise the number nearest to the sum of the matching costs rounded to 2 decimal
  places, a half rounded up in magnitude (for a sum of magnitude below \<open>10 ^ 21\<close>, where
  \<^verbatim>\<open>toFixed\<close> writes decimals); with matching costs \<^verbatim>\<open>[10.005, 5.00]\<close> it returns the
  number \<^verbatim>\<open>15.01\<close>. The sum is the one the code computes, in binary64 from left to
  right, and the literals denote their nearest binary64 values.
\<close>

theorem total_claim_cost_for_disaster:
  "(filter (\<lambda>claim. disaster_id claim = d) cs = [] \<longrightarrow>
      getTotalClaimCostForDisaster cs d = None)
   \<and> (filter (\<lambda>claim. disaster_id claim = d) cs \<noteq> [] \<longrightarrow>
       getTotalClaimCostForDisaster cs d =
         Some (parseFloat (toFixed
           (foldl num_add (Fin 0)
              (map estimate_cost (filter (\<lambda>claim. disaster_id claim = d) cs))) 2)))
   \<and> (\<forall>t. filter (\<lambda>claim. disaster_id claim = d) cs \<noteq> []

          \<and> foldl num_add (Fin 0)
               (map estimate_cost (filter (\<lambda>claim. disaster_id claim = d) cs)) = Fin t
          \<and> \<bar>t\<bar> < 10 ^ 21 \<longrightarrow>
          (\<exists>n::int. getTotalClaimCostForDisaster cs d = Some (round64 (of_int n / 10 ^ 2))
             \<and> \<bar>of_int n / 10 ^ 2 - t\<bar> \<le> 1 / (2 * 10 ^ 2)
             \<and> (\<bar>of_int n / 10 ^ 2 - t\<bar> = 1 / (2 * 10 ^ 2) \<longrightarrow> \<bar>t\<bar> < \<bar>of_int n / 10 ^ 2\<bar>)))
   \<and> (map estimate_cost (filter (\<lambda>claim. disaster_id claim = d) cs)
         = [round64 (10005 / 1000), Fin 5] \<longrightarrow>
       getTotalClaimCostForDisaster cs d = Some (round64 (1501 / 100)))"
proof (intro conjI allI impI)
  assume "filter (\<lambda>claim. disaster_id claim = d) cs = []"
  then show "getTotalClaimCostForDisaster cs d = None"
    by (simp add: getTotalClaimCostForDisaster_eq)
next
  assume "filter (\<lambda>claim. disaster_id claim = d) cs \<noteq> []"
  then show "getTotalClaimCostForDisaster cs d =
         Some (parseFloat (toFixed
           (foldl num_add (Fin 0)
              (map estimate_cost (filter (\<lambda>claim. disaster_id claim = d) cs))) 2))"
    by (simp add: getTotalClaimCostForDisaster_eq)
next
  fix t
  assume a: "filter (\<lambda>claim. disaster_id claim = d) cs \<noteq> []
          \<and> foldl num_add (Fin 0)

               (map estimate_cost (filter (\<lambda>claim. disaster_id claim = d) cs)) = Fin t
          \<and> \<bar>t\<bar> < 10 ^ 21"
  then have r: "getTotalClaimCostForDisaster cs d = Some (parseFloat (toFixed (Fin t) 2))"
    by (simp add: getTotalClaimCostForDisaster_eq)
  from a have "\<bar>t\<bar> < 10 ^ 21" by simp
  from parseFloat_toFixed_finite [OF this, of 2]
  show "\<exists>n::int. getTotalClaimCostForDisaster cs d = Some (round64 (of_int n / 10 ^ 2))
             \<and> \<bar>of_int n / 10 ^ 2 - t\<bar> \<le> 1 / (2 * 10 ^ 2)
             \<and> (\<bar>of_int n / 10 ^ 2 - t\<bar> = 1 / (2 * 10 ^ 2) \<longrightarrow> \<bar>t\<bar> < \<bar>of_int n / 10 ^ 2\<bar>)"
    unfolding r by blast
next
  assume costs: "map estimate_cost (filter (\<lambda>claim. disaster_id claim = d) cs)
         = [round64 (10005 / 1000), Fin 5]"
  then have ne: "filter (\<lambda>claim. disaster_id claim = d) cs \<noteq> []" by auto
  have "getTotalClaimCostForDisaster cs d
      = Some (parseFloat (toFixed (foldl num_add (Fin 0) [round64 (10005 / 1000), Fin 5]) 2))"
    using ne by (simp only: getTotalClaimCostForDisaster_eq costs if_False)
  also have "\<dots> = Some (parseFloat (Decimal (1501 / 100)))"
    by (simp only: literal_10_005 sum_10_005_and_5 toFixed_15_005)
  also have "\<dots> = Some (round64 (1501 / 100))"
    by (simp only: parseFloat_def numeric_text.case)
  finally show "getTotalClaimCostForDisaster cs d = Some (round64 (1501 / 100))" .
qed

theorem total_claim_cost_for_disaster_witness:
  "getTotalClaimCostForDisaster sampleCosts 3 = None
   \<and> getTotalClaimCostForDisaster sampleCosts 1 = Some (round64 (1501 / 100))
   \<and> round64 (1501 / 100) = Fin (8449878800853893 / 562949953421312)
   \<and> getTotalClaimCostForDisaster sampleCosts 1 =
       Some (parseFloat
 (toFixed (Fin (8447064051086787 / 562949953421312)) 2))
   \<and> (\<exists>n::int. getTotalClaimCostForDisaster sampleCosts 1 = Some (round64 (of_int n / 10 ^ 2))

         \<and> \<bar>of_int n / 10 ^ 2 - 8447064051086787 / 562949953421312 :: rat\<bar> \<le> 1 / (2 * 10 ^ 2))"
proof -
  have m3: "filter (\<lambda>claim. disaster_id claim = 3) sampleCosts = []"
    by (simp add: sampleCosts_def mkClaim_def)
  have m1: "map estimate_cost (filter (\<lambda>claim. disaster_id claim = 1) sampleCosts)
      = [round64 (10005 / 1000), Fin 5]"
    by (simp add: sampleCosts_def mkClaim_def)
  have ne: "filter (\<lambda>claim. disaster_id claim = 1) sampleCosts \<noteq> []"
    by (simp add: sampleCosts_def mkClaim_def)
  have s: "foldl num_add (Fin 0)
      (map estimate_cost (filter (\<lambda>claim. disaster_id claim = 1) sampleCosts))
      = Fin (8447064051086787 / 562949953421312)"
    by (simp only: m1 literal_10_005 sum_10_005_and_5)
  have b: "\<bar>8447064051086787 / 562949953421312\<bar> < (10::rat) ^ 21" by simp
  have a3: "getTotalClaimCostForDisaster sampleCosts 3 = None"
    by (rule total_claim_cost_for_disaster
        [of 3 sampleCosts, THEN conjunct1, rule_format, OF m3])
  have a1: "getTotalClaimCostForDisaster sampleCosts 1 = Some (round64 (1501 / 100))"
    by (rule total_claim_cost_for_disaster
        [of 1 sampleCosts, THEN conjunct2, THEN conjunct2, THEN conjunct2, rule_format, OF m1])

  have a4: "getTotalClaimCostForDisaster sampleCosts 1 =
      Some (parseFloat (toFixed (Fin (8447064051086787 / 562949953421312)) 2))"
    using total_claim_cost_for_disaster
        [of 1 sampleCosts, THEN conjunct2, THEN conjunct1, rule_format, OF ne]
    by (simp only: s)
  have a2: "\<exists>n::int. getTotalClaimCostForDisaster sampleCosts 1 = Some (round64 (of_int n / 10 ^ 2))

         \<and> \<bar>of_int n / 10 ^ 2 - 8447064051086787 / 562949953421312 :: rat\<bar> \<le> 1 / (2 * 10 ^ 2)"
    using total_claim_cost_for_disaster
        [of 1 sampleCosts, THEN conjunct2, THEN conjunct2, THEN conjunct1, rule_format,

         OF conjI [OF ne conjI [OF s b]]]
    by blast
  from a3 a1 literal_15_01 a4 a2 show ?thesis by (intro conjI)

qed

section \<open>The claim density of a disaster\<close>

lemma calculateDisasterClaimDensity_eq:
  "calculateDisasterClaimDensity ds cs i =
     (if filter (\<lambda>claim. disaster_id claim = i) cs = [] then None
      else Some (parseFloat (toFixed
        (num_div (lengthNumber (filter (\<lambda>claim. disaster_id claim = i) cs))
           (num_mul Math_PI (num_square (toNumber
              (map_option radius_miles (find (\<lambda>disaster. d_id disaster = i) ds)))))) 5)))"
  by (simp add: calculateDisasterClaimDensity_def Let_def)

lemma density_4_claims_radius_10:
  "num_div (Fin 4) (num_mul Math_PI (num_square (Fin 10)))
     = Fin (7339726258205003 / 576460752303423488)"
proof -
  have sq: "num_square (Fin 10) = Fin 100"
    using round64_normal [of 100 6 7036874417766400]
    by (simp add: num_square_def roundHalfEven_def Let_def floor_rat_numeral_divide)
  have area: "num_mul Math_PI (Fin 100) = Fin (5526748243772219 / 17592186044416)"
    using round64_normal [of "884279719003555 / 281474976710656 * 100" 8 5526748243772219]
    by (simp add: Math_PI_def roundHalfEven_def Let_def floor_rat_numeral_divide)
  have quot: "num_div (Fin 4) (Fin (5526748243772219 / 17592186044416))
      = Fin (7339726258205003 / 576460752303423488)"
    using round64_normal [of "4 / (5526748243772219 / 17592186044416)" "- 7" 7339726258205003]
    by (simp add: roundHalfEven_def Let_def floor_rat_numeral_divide)
  show ?thesis by (simp only: sq area quot)
qed

lemma toFixed_density_example:
  "toFixed (Fin (7339726258205003 / 576460752303423488)) 5 = Decimal (1273 / 100000)"
  by (simp add: toFixed_def floor_rat_numeral_divide)

text \<open>
  C7. \<open>calculateDisasterClaimDensity\<close> returns \<^verbatim>\<open>null\<close> when no claim has the disaster id;
  otherwise the number of claims divided by \<^verbatim>\<open>Math.PI\<close> times the square of the radius of
  the first Disaster record with the id (\<^verbatim>\<open>undefined\<close> when there is none), computed in
  binary64 and rounded to 5 decimal places; with 4 claims and radius 10 it returns the
  number \<^verbatim>\<open>0.01273\<close>.
\<close>

theorem claim_density:
  "(filter (\<lambda>claim. disaster_id claim = i) cs = [] \<longrightarrow>
      calculateDisasterClaimDensity ds cs i = None)
   \<and> (filter (\<lambda>claim. disaster_id claim = i) cs \<noteq> [] \<longrightarrow>
        calculateDisasterClaimDensity ds cs i =
          Some (parseFloat (toFixed
            (num_div (lengthNumber (filter (\<lambda>claim. disaster_id claim = i) cs))
               (num_mul Math_PI (num_square (toNumber (map_option radius_miles
                  (find (\<lambda>disaster. d_id disaster = i) ds)))))) 5)))

   \<and> (\<forall>disaster x. filter (\<lambda>claim. disaster_id claim = i) cs \<noteq> []
          \<and> find (\<lambda>disaster. d_id disaster = i) ds = Some disaster
          \<and> num_div (lengthNumber (filter (\<lambda>claim. disaster_id claim = i) cs))
               (num_mul Math_PI (num_square (radius_miles disaster))) = Fin x
          \<and> \<bar>x\<bar> < 10 ^ 21 \<longrightarrow>
        (\<exists>n::int. calculateDisasterClaimDensity ds cs i = Some (round64 (of_int n / 10 ^ 5))
           \<and> \<bar>of_int n / 10 ^ 5 - x\<bar> \<le> 1 / (2 * 10 ^ 5)
           \<and> (\<bar>of_int n / 10 ^ 5 - x\<bar> = 1 / (2 * 10 ^ 5) \<longrightarrow> \<bar>x\<bar> < \<bar>of_int n / 10 ^ 5\<bar>)))
   \<and> (\<forall>disaster. length (filter (\<lambda>claim. disaster_id claim = i) cs) = 4
          \<and> find (\<lambda>disaster. d_id disaster = i) ds = Some disaster
          \<and> radius_miles disaster = Fin 10 \<longrightarrow>
        calculateDisasterClaimDensity ds cs i = Some (round64 (1273 / 100000)))"
proof (intro conjI allI impI)
  assume "filter (\<lambda>claim. disaster_id claim = i) cs = []"
  then show "calculateDisasterClaimDensity ds cs i = None"
    by (simp add: calculateDisasterClaimDensity_eq)
next
  assume "filter (\<lambda>claim. disaster_id claim = i) cs \<noteq> []"
  then show "calculateDisasterClaimDensity ds cs i =
          Some (parseFloat (toFixed
            (num_div (lengthNumber (filter (\<lambda>claim. disaster_id claim = i) cs))
               (num_mul Math_PI (num_square (toNumber (map_option radius_miles
                  (find (\<lambda>disaster. d_id disaster = i) ds)))))) 5))"
    by (simp add: calculateDisasterClaimDensity_eq)

next
  fix disaster x
  assume a: "filter (\<lambda>claim. disaster_id claim = i) cs \<noteq> []
          \<and> find (\<lambda>disaster. d_id disaster = i) ds = Some disaster
          \<and> num_div (lengthNumber (filter (\<lambda>claim. disaster_id claim = i) cs))
               (num_mul Math_PI (num_square (radius_miles disaster))) = Fin x
          \<and> \<bar>x\<bar> < 10 ^ 21"
  then have r: "calculateDisasterClaimDensity ds cs i = Some (parseFloat (toFixed (Fin x) 5))"
    by (simp add: calculateDisasterClaimDensity_eq toNumber_def)
  from a have "\<bar>x\<bar> < 10 ^ 21" by simp
  from parseFloat_toFixed_finite [OF this, of 5]
  show "\<exists>n::int. calculateDisasterClaimDensity ds cs i = Some (round64 (of_int n / 10 ^ 5))
           \<and> \<bar>of_int n / 10 ^ 5 - x\<bar> \<le> 1 / (2 * 10 ^ 5)
           \<and> (\<bar>of_int n / 10 ^ 5 - x\<bar> = 1 / (2 * 10 ^ 5) \<longrightarrow> \<bar>x\<bar> < \<bar>of_int n / 10 ^ 5\<bar>)"
    unfolding r by blast
next
  fix disaster
  assume a: "length (filter (\<lambda>claim. disaster_id claim = i) cs) = 4
          \<and> find (\<lambda>disaster. d_id disaster = i) ds = Some disaster
          \<and> radius_miles disaster = Fin 10"
  then have ne: "filter (\<lambda>claim. disaster_id claim = i) cs \<noteq> []" by auto
  from a have len: "lengthNumber (filter (\<lambda>claim. disaster_id claim = i) cs) = Fin 4"
    by (simp add: lengthNumber_def)
  from a have rad: "toNumber (map_option radius_miles
      (find (\<lambda>disaster. d_id disaster = i) ds)) = Fin 10"
    by (simp add: toNumber_def)
  have "calculateDisasterClaimDensity ds cs i
      = Some (parseFloat (toFixed (num_div (Fin 4) (num_mul Math_PI (num_square (Fin 10)))) 5))"
    using ne by (simp only: calculateDisasterClaimDensity_eq len rad if_False)
  also have "\<dots> = Some (parseFloat (Decimal (1273 / 100000)))"
    by (simp only: density_4_claims_radius_10 toFixed_density_example)
  also have "\<dots> = Some (round64 (1273 / 100000))"
    by (simp only: parseFloat_def numeric_text.case)
  finally show "calculateDisasterClaimDensity ds cs i = Some (round64 (1273 / 100000))" .
qed

theorem claim_density_witness:
  "calculateDisasterClaimDensity sampleDisasters densityClaims 2 = None
   \<and> calculateDisasterClaimDensity sampleDisasters densityClaims 1
       = Some (round64 (1273 / 100000))
   \<and> round64 (1273 / 100000) = Fin (7338345376822581 / 576460752303423488)
   \<and> calculateDisasterClaimDensity sampleDisasters densityClaims 1 =

          Some (parseFloat (toFixed
            (num_div (lengthNumber (filter (\<lambda>claim. disaster_id claim = 1) densityClaims))
               (num_mul Math_PI (num_square (toNumber (map_option radius_miles
                  (find (\<lambda>disaster. d_id disaster = 1) sampleDisasters)))))) 5))

   \<and> (\<exists>n::int. calculateDisasterClaimDensity sampleDisasters densityClaims 1
          = Some (round64 (of_int n / 10 ^ 5))
        \<and> \<bar>of_int n / 10 ^ 5 - 7339726258205003 / 576460752303423488 :: rat\<bar>
            \<le> 1 / (2 * 10 ^ 5))"
proof -
  have none: "filter (\<lambda>claim. disaster_id claim = 2) densityClaims = []"
    by (simp add: densityClaims_def mkClaim_def)
  have ne: "filter (\<lambda>claim. disaster_id claim = 1) densityClaims \<noteq> []"
    by (simp add: densityClaims_def mkClaim_def)
  have four: "length (filter (\<lambda>claim. disaster_id claim = 1) densityClaims) = 4"
    by (simp add: densityClaims_def mkClaim_def)
  have found: "find (\<lambda>disaster. d_id disaster = 1) sampleDisasters
      = Some (mkDisaster 1 ''Texas'')"
    by (simp add: sampleDisasters_def mkDisaster_def)
  have rad: "radius_miles (mkDisaster 1 ''Texas'') = Fin 10"
    by (simp add: mkDisaster_def)
  have dens: "num_div (lengthNumber (filter (\<lambda>claim. disaster_id claim = 1) densityClaims))
      (num_mul Math_PI (num_square (radius_miles (mkDisaster 1 ''Texas''))))
      = Fin (7339726258205003 / 576460752303423488)"
    by (simp only: lengthNumber_def four rad of_nat_numeral density_4_claims_radius_10)
  have b: "\<bar>7339726258205003 / 576460752303423488\<bar> < (10::rat) ^ 21" by simp
  note T = claim_density [of 1 densityClaims sampleDisasters]
  have a0: "calculateDisasterClaimDensity sampleDisasters densityClaims 2 = None"
    by (rule claim_density [of 2 densityClaims sampleDisasters, THEN conjunct1, rule_format,
          OF none])
  have a1: "calculateDisasterClaimDensity sampleDisasters densityClaims 1
       = Some (round64 (1273 / 100000))"
    by (rule T [THEN conjunct2, THEN conjunct2, THEN conjunct2, rule_format,
          OF conjI [OF four conjI [OF found rad]]])
  have a2: "calculateDisasterClaimDensity sampleDisasters densityClaims 1 =
          Some (parseFloat (toFixed
            (num_div (lengthNumber (filter (\<lambda>claim. disaster_id claim = 1) densityClaims))
               (num_mul Math_PI (num_square (toNumber (map_option radius_miles
                  (find (\<lambda>disaster. d_id disaster = 1) sampleDisasters)))))) 5))"
    by (rule T [THEN conjunct2, THEN conjunct1, rule_format, OF ne])

  have a3: "\<exists>n::int. calculateDisasterClaimDensity sampleDisasters densityClaims 1
          = Some (round64 (of_int n / 10 ^ 5))
        \<and> \<bar>of_int n / 10 ^ 5 - 7339726258205003 / 576460752303423488 :: rat\<bar>
            \<le> 1 / (2 * 10 ^ 5)"
    using T [THEN conjunct2, THEN conjunct2, THEN conjunct1, rule_format,
          OF conjI [OF ne conjI [OF found conjI [OF dens b]]]]
    by blast
  from a0 a1 literal_0_01273 a2 a3 show ?thesis by (intro conjI)

qed

text \<open>
  C9. When some claim has the disaster id and no Disaster record has it,
  \<open>calculateDisasterClaimDensity\<close> returns \<^verbatim>\<open>NaN\<close>: it returns a value, and the value is
  not \<^verbatim>\<open>null\<close>.
\<close>

theorem density_of_unknown_disaster:
  assumes "filter (\<lambda>claim. disaster_id claim = i) cs \<noteq> []"
    and "find (\<lambda>disaster. d_id disaster = i) ds = None"
  shows "calculateDisasterClaimDensity ds cs i = Some NaN"
  using assms
  by (simp add: calculateDisasterClaimDensity_def Let_def toNumber_def num_square_def
      Math_PI_def lengthNumber_def toFixed_def parseFloat_def)

theorem density_of_unknown_disaster_witness:
  "filter (\<lambda>claim. disaster_id claim = 99) densityClaims \<noteq> []
   \<and> find (\<lambda>disaster. d_id disaster = 99) sampleDisasters = None
   \<and> calculateDisasterClaimDensity sampleDisasters densityClaims 99 = Some NaN"
proof -
  have ne: "filter (\<lambda>claim. disaster_id claim = 99) densityClaims \<noteq> []"
    by (simp add: densityClaims_def mkClaim_def)
  have nf: "find (\<lambda>disaster. d_id disaster = 99) sampleDisasters = None"
    by (simp add: sampleDisasters_def mkDisaster_def)
  from density_of_unknown_disaster [OF ne nf] ne nf show ?thesis by (intro conjI)
qed

section \<open>The total claim cost of every agent\<close>

lemma agentClaimCost_eq:
  "agentClaimCost cs m agent = m(a_id agent \<mapsto> parseFloat (toFixed (agentTotal cs (a_id agent)) 2))"
  by (simp add: agentClaimCost_def Let_def foldl_costs agentTotal_def)

lemma foldl_agentClaimCost:
  "foldl (agentClaimCost cs) m agents k =
     (if k \<in> a_id ` set agents then Some (parseFloat (toFixed (agentTotal cs k) 2)) else m k)"
proof (induction agents arbitrary: m)
  case Nil
  show ?case by simp
next
  case (Cons a agents)
  have "foldl (agentClaimCost cs) m (a # agents) k
      = foldl (agentClaimCost cs) (agentClaimCost cs m a) agents k" by simp
  also have "\<dots> = (if k \<in> a_id ` set agents
      then Some (parseFloat (toFixed (agentTotal cs k) 2)) else agentClaimCost cs m a k)"
    by (rule Cons.IH)
  also have "\<dots> = (if k \<in> a_id ` set (a # agents)
      then Some (parseFloat (toFixed (agentTotal cs k) 2)) else m k)"
    by (simp add: agentClaimCost_eq)
  finally show ?case .

qed

text \<open>
  C6. The object returned by \<open>buildMapOfAgentsToTotalClaimCost\<close> has the ids of the loaded
  agents as its keys, one per agent when the ids are distinct; an agent without claims is
  mapped to 0, every agent to the sum of the costs of its claims rounded to hundredths; an
  id of no loaded agent is not a key.
\<close>

theorem agents_to_total_claim_cost:
  "dom (buildMapOfAgentsToTotalClaimCost agents cs) = a_id ` set agents
   \<and> (distinct (map a_id agents) \<longrightarrow>
        card (dom (buildMapOfAgentsToTotalClaimCost agents cs)) = length agents)
   \<and> (\<forall>agent \<in> set agents.
        buildMapOfAgentsToTotalClaimCost agents cs (a_id agent)
          = Some (parseFloat (toFixed (agentTotal cs (a_id agent)) 2)))
   \<and> (\<forall>agent \<in> set agents.
        filter (\<lambda>claim. agent_assigned_id claim = a_id agent) cs = [] \<longrightarrow>
        buildMapOfAgentsToTotalClaimCost agents cs (a_id agent) = Some (Fin 0))
   \<and> (\<forall>agent \<in> set agents. \<forall>t. agentTotal cs (a_id agent) = Fin t \<and> \<bar>t\<bar> < 10 ^ 21 \<longrightarrow>
        (\<exists>n::int. buildMapOfAgentsToTotalClaimCost agents cs (a_id agent)
                     = Some (round64 (of_int n / 10 ^ 2))
           \<and> \<bar>of_int n / 10 ^ 2 - t\<bar> \<le> 1 / (2 * 10 ^ 2)
           \<and> (\<bar>of_int n / 10 ^ 2 - t\<bar> = 1 / (2 * 10 ^ 2) \<longrightarrow> \<bar>t\<bar> < \<bar>of_int n / 10 ^ 2\<bar>)))
   \<and> (\<forall>k. k \<notin> a_id ` set agents \<longrightarrow> buildMapOfAgentsToTotalClaimCost agents cs k = None)"
proof -
  let ?m = "buildMapOfAgentsToTotalClaimCost agents cs"
  have entry: "?m k =
      (if k \<in> a_id ` set agents then Some (parseFloat (toFixed (agentTotal cs k) 2)) else None)"
    for k
    by (simp add: buildMapOfAgentsToTotalClaimCost_def foldl_agentClaimCost)
  have keys: "dom ?m = a_id ` set agents"
    by (auto simp: dom_def entry)
  have one: "distinct (map a_id agents) \<longrightarrow> card (dom ?m) = length agents"
    using distinct_card [of "map a_id agents"] by (simp add: keys)
  have val: "\<forall>agent \<in> set agents. ?m (a_id agent)
      = Some (parseFloat (toFixed (agentTotal cs (a_id agent)) 2))"
    by (simp add: entry)
  have zero: "\<forall>agent \<in> set agents.
        filter (\<lambda>claim. agent_assigned_id claim = a_id agent) cs = [] \<longrightarrow>
        ?m (a_id agent) = Some (Fin 0)"
    by (simp add: entry agentTotal_def parseFloat_toFixed_zero)
  have rounded: "\<forall>agent \<in> set agents. \<forall>t. agentTotal cs (a_id agent) = Fin t \<and> \<bar>t\<bar> < 10 ^ 21 \<longrightarrow>
        (\<exists>n::int. ?m (a_id agent) = Some (round64 (of_int n / 10 ^ 2))
           \<and> \<bar>of_int n / 10 ^ 2 - t\<bar> \<le> 1 / (2 * 10 ^ 2)
           \<and> (\<bar>of_int n / 10 ^ 2 - t\<bar> = 1 / (2 * 10 ^ 2) \<longrightarrow> \<bar>t\<bar> < \<bar>of_int n / 10 ^ 2\<bar>))"
  proof (intro ballI allI impI)
    fix agent t
    assume a: "agent \<in> set agents" and t: "agentTotal cs (a_id agent) = Fin t \<and> \<bar>t\<bar> < 10 ^ 21"
    from a t have r: "?m (a_id agent) = Some (parseFloat (toFixed (Fin t) 2))"
      by (simp add: entry)
    from t have "\<bar>t\<bar> < 10 ^ 21" by simp
    from parseFloat_toFixed_finite [OF this, of 2]
    show "\<exists>n::int. ?m (a_id agent) = Some (round64 (of_int n / 10 ^ 2))
           \<and> \<bar>of_int n / 10 ^ 2 - t\<bar> \<le> 1 / (2 * 10 ^ 2)
           \<and> (\<bar>of_int n / 10 ^ 2 - t\<bar> = 1 / (2 * 10 ^ 2) \<longrightarrow> \<bar>t\<bar> < \<bar>of_int n / 10 ^ 2\<bar>)"
      unfolding r by blast
  qed
  have absent: "\<forall>k. k \<notin> a_id ` set agents \<longrightarrow> ?m k = None"
    by (simp add: entry)
  from keys one val zero rounded absent show ?thesis by (intro conjI)
qed

theorem agents_to_total_claim_cost_witness:
  "dom (buildMapOfAgentsToTotalClaimCost sampleAgents sampleClaims) = a_id ` set sampleAgents
   \<and> card (dom (buildMapOfAgentsToTotalClaimCost sampleAgents sampleClaims)) = 9
   \<and> buildMapOfAgentsToTotalClaimCost sampleAgents sampleClaims 1 = Some (Fin 0)
   \<and> buildMapOfAgentsToTotalClaimCost sampleAgents sampleClaims 7 = Some (Fin 350)
   \<and> (\<exists>n::int. buildMapOfAgentsToTotalClaimCost sampleAgents sampleClaims 7
                     = Some (round64 (of_int n / 10 ^ 2))
           \<and> \<bar>of_int n / 10 ^ 2 - 350 :: rat\<bar> \<le> 1 / (2 * 10 ^ 2))
   \<and> buildMapOfAgentsToTotalClaimCost sampleAgents sampleClaims 99 = None"
proof -
  note T = agents_to_total_claim_cost [of sampleAgents sampleClaims]
  have d: "distinct (map a_id sampleAgents)" by (simp add: sampleAgents_def mkAgent_def)
  have len: "length sampleAgents = 9" by (simp add: sampleAgents_def)
  have in1: "mkAgent 1 ''Texas'' (Some ''Spanish'') \<in> set sampleAgents"
    by (simp add: sampleAgents_def)
  have in7: "mkAgent 7 ''Ohio'' (Some ''German'') \<in> set sampleAgents"
    by (simp add: sampleAgents_def)
  have id1: "a_id (mkAgent 1 ''Texas'' (Some ''Spanish'')) = 1" by (simp add: mkAgent_def)
  have id7: "a_id (mkAgent 7 ''Ohio'' (Some ''German'')) = 7" by (simp add: mkAgent_def)
  have no1: "filter (\<lambda>claim. agent_assigned_id claim
      = a_id (mkAgent 1 ''Texas'' (Some ''Spanish''))) sampleClaims = []"
    by (simp add: sampleClaims_def mkClaim_def mkAgent_def)
  have tot7: "agentTotal sampleClaims (a_id (mkAgent 7 ''Ohio'' (Some ''German''))) = Fin 350"
    by (simp add: agentTotal_def sampleClaims_def mkClaim_def mkAgent_def round64_100
        round64_350)
  have tot7': "agentTotal sampleClaims 7 = Fin 350"
    using tot7 by (simp only: id7)
  have b: "\<bar>350\<bar> < (10::rat) ^ 21" by simp

  have out: "99 \<notin> a_id ` set sampleAgents" by (simp add: sampleAgents_def mkAgent_def)
  have fix350: "parseFloat (toFixed (Fin 350) 2) = Fin 350"
    by (simp add: toFixed_def parseFloat_def round64_350 floor_rat_numeral_divide)
  have a0: "dom (buildMapOfAgentsToTotalClaimCost sampleAgents sampleClaims)
      = a_id ` set sampleAgents"
    by (rule T [THEN conjunct1])
  have a1: "card (dom (buildMapOfAgentsToTotalClaimCost sampleAgents sampleClaims)) = 9"
    using T [THEN conjunct2, THEN conjunct1, rule_format, OF d] by (simp only: len)
  have a2: "buildMapOfAgentsToTotalClaimCost sampleAgents sampleClaims 1 = Some (Fin 0)"
    using T [THEN conjunct2, THEN conjunct2, THEN conjunct2, THEN conjunct1, rule_format,
        OF in1 no1] by (simp only: id1)
  have a3: "buildMapOfAgentsToTotalClaimCost sampleAgents sampleClaims 7 = Some (Fin 350)"
    using T [THEN conjunct2, THEN conjunct2, THEN conjunct1, rule_format, OF in7]
    by (simp only: id7 tot7' fix350)
  have a4: "\<exists>n::int. buildMapOfAgentsToTotalClaimCost sampleAgents sampleClaims 7
                     = Some (round64 (of_int n / 10 ^ 2))
           \<and> \<bar>of_int n / 10 ^ 2 - 350 :: rat\<bar> \<le> 1 / (2 * 10 ^ 2)"
    using T [THEN conjunct2, THEN conjunct2, THEN conjunct2, THEN conjunct2, THEN conjunct1,
        rule_format, OF in7 conjI [OF tot7 b]]
    unfolding id7 by blast
  have a5: "buildMapOfAgentsToTotalClaimCost sampleAgents sampleClaims 99 = None"
    by (rule T [THEN conjunct2, THEN conjunct2, THEN conjunct2, THEN conjunct2, THEN conjunct2,
        rule_format, OF out])
  from a0 a1 a2 a3 a4 a5 show ?thesis by (intro conjI)
qed

section \<open>The values of binary64 arithmetic\<close>

lemma roundHalfEven_ge_floor: "\<lfloor>m\<rfloor> \<le> roundHalfEven m"
  by (simp add: roundHalfEven_def Let_def)

lemma roundHalfEven_ge_one: "1 \<le> m \<Longrightarrow> 1 \<le> roundHalfEven m"
proof -
  assume "1 \<le> m"
  then have "1 \<le> \<lfloor>m\<rfloor>" by simp
  with roundHalfEven_ge_floor [of m] show ?thesis by linarith
qed

lemma round64_minus: "round64 (- q) = num_neg (round64 q)"
  by (simp add: round64_def Let_def)

lemma round64_zero: "round64 0 = Fin 0"
  by (simp add: round64_def)

lemma ulp_multiple:
  assumes "- 1022 \<le> e"
  shows "\<exists>k::int. of_int n * (2::rat) powi (e - 52) = of_int k * 2 powi (- 1074)"
proof -
  have "(2::rat) powi (e - 52) = 2 powi ((e + 1022) + (- 1074))"
    by (rule arg_cong [where f = "\<lambda>x. 2 powi x"]) simp
  also have "\<dots> = 2 powi (e + 1022) * 2 powi (- 1074)"
    by (rule power_int_add) simp
  also have "(2::rat) powi (e + 1022) = of_int (2 ^ nat (e + 1022))"
    using assms by (simp add: power_int_def)
  finally have "of_int n * (2::rat) powi (e - 52)
      = of_int (n * 2 ^ nat (e + 1022)) * 2 powi (- 1074)"
    by (simp only: of_int_mult mult.assoc)
  then show ?thesis by blast
qed

lemma round64_value: "isValue (round64 q)"
proof (cases "q = 0")
  case True
  have "(0::rat) = of_int 0 * 2 powi (- 1074)" by (simp only: of_int_0 mult_zero_left)
  then have "isValue (Fin 0)" unfolding isValue_def number.case by (rule exI)
  then show ?thesis unfolding True by (simp add: round64_def)
next
  case False
  define e where "e = max (ilog2 \<bar>q\<bar>) (- 1022)"
  define n where "n = roundHalfEven (\<bar>q\<bar> / 2 powi (e - 52))"
  define r where "r = of_int n * (2::rat) powi (e - 52)"
  have e: "- 1022 \<le> e" by (simp add: e_def)
  from ulp_multiple [OF e, of n] obtain k :: int
    where k: "r = of_int k * 2 powi (- 1074)" unfolding r_def by blast
  then have "- r = - of_int k * 2 powi (- 1074)" by (simp only: mult_minus_left)
  then have k': "- r = of_int (- k) * 2 powi (- 1074)" by (simp only: of_int_minus)
  have vr: "isValue (Fin r)" unfolding isValue_def number.case using k by (rule exI)
  have vr': "isValue (Fin (- r))" unfolding isValue_def number.case using k' by (rule exI)
  have inf: "isValue PosInf" "isValue NegInf" by (simp_all add: isValue_def)
  have res: "round64 q =
      (if 2 powi 1024 \<le> r then (if 0 < q then PosInf else NegInf)
       else Fin (if 0 < q then r else - r))"
    using False by (simp add: round64_def Let_def e_def n_def r_def)
  show ?thesis
    unfolding res using vr vr' inf by (simp split: if_splits)
qed

lemma round64_positive:
  assumes "2 powi (- 1074) \<le> q"
  shows "round64 q = PosInf \<or> (\<exists>r. 0 < r \<and> round64 q = Fin r)"
proof -
  have "(0::rat) < 2 powi (- 1074)" by (rule zero_less_power_int) simp
  with assms have q: "0 < q" by linarith

  define e where "e = max (ilog2 q) (- 1022)"
  define n where "n = roundHalfEven (q / 2 powi (e - 52))"
  have ulp: "(2::rat) powi (e - 52) \<le> q"
  proof (cases "- 1022 \<le> ilog2 q")
    case True
    then have "e = ilog2 q" by (simp add: e_def)
    moreover have "(2::rat) powi (ilog2 q - 52) \<le> 2 powi (ilog2 q)"
      by (simp only: powi2_le_iff)

    moreover have "2 powi (ilog2 q) \<le> q" using ilog2_bounds [OF q] by simp
    ultimately show ?thesis by simp
  next
    case False
    then have "e = - 1022" by (simp add: e_def)
    then show ?thesis using assms by simp
  qed
  have "1 \<le> q / 2 powi (e - 52)" using ulp by (simp add: le_divide_eq)
  then have n: "1 \<le> n" unfolding n_def by (rule roundHalfEven_ge_one)
  then have pos: "0 < of_int n * (2::rat) powi (e - 52)" by simp
  have r: "round64 q =
      (if 2 powi 1024 \<le> of_int n * (2::rat) powi (e - 52) then PosInf
       else Fin (of_int n * 2 powi (e - 52)))"
    using q by (simp add: round64_def Let_def e_def n_def)
  show ?thesis unfolding r using pos by auto
qed

lemma round64_negative:
  assumes "q \<le> - (2 powi (- 1074))"
  shows "round64 q = NegInf \<or> (\<exists>r. r < 0 \<and> round64 q = Fin r)"
proof -
  from assms have "2 powi (- 1074) \<le> - q" by simp
  from round64_positive [OF this] have "round64 (- q) = PosInf \<or> (\<exists>r. 0 < r \<and> round64 (- q) = Fin r)" .
  then show ?thesis
    unfolding round64_minus by (cases "round64 q") auto
qed

lemma roundHalfEven_of_int: "roundHalfEven (of_int j) = j"
  by (simp add: roundHalfEven_def)

lemma round64_of_int:
  assumes "0 < k" "k < 2 ^ 53"
  shows "round64 (of_int k) = Fin (of_int k)"
proof -
  define e where "e = bitlen k - 1"
  have b: "(2::rat) powi e \<le> of_int k" "of_int k < (2::rat) powi (e + 1)"
    using bitlen_bounds_rat [OF assms(1)] by (simp_all add: e_def)
  have e0: "0 \<le> e" using bitlen_pos [OF assms(1)] by (simp add: e_def)
  have e52: "e \<le> 52"
  proof -
    have "(of_int k :: rat) < of_int (2 ^ 53)" using assms(2) by (simp only: of_int_less_iff)
    also have "\<dots> = 2 powi 53" by simp
    finally have "(2::rat) powi e < 2 powi 53" using b(1) by simp
    then have "e < 53" by (simp only: powi2_less_iff)
    then show ?thesis by simp
  qed
  define n where "n = k * 2 ^ nat (52 - e)"
  have p: "(2::rat) powi (52 - e) = of_int (2 ^ nat (52 - e))"
    using e52 by (simp add: power_int_def)
  have inv: "(2::rat) powi (e - 52) * 2 powi (52 - e) = 1"
  proof -
    have "(2::rat) powi ((e - 52) + (52 - e)) = 2 powi (e - 52) * 2 powi (52 - e)"
      by (rule power_int_add) simp
    then show ?thesis by simp
  qed
  have quot: "of_int k / (2::rat) powi (e - 52) = of_int n"
  proof -
    have "of_int k / (2::rat) powi (e - 52) = of_int k * 2 powi (52 - e)"
      using inv by (simp add: field_simps)
    then show ?thesis by (simp add: n_def p)
  qed
  have value_n: "of_int n * (2::rat) powi (e - 52) = of_int k"
    using quot by (simp add: field_simps)
  have small: "of_int n * (2::rat) powi (e - 52) < 2 powi 1024"
  proof -
    have "(of_int k :: rat) < of_int (2 ^ 53)" using assms(2) by (simp only: of_int_less_iff)
    also have "\<dots> = 2 powi 53" by simp
    also have "\<dots> < 2 powi 1024" by (simp only: powi2_less_iff)
    finally show ?thesis by (simp only: value_n)
  qed
  have "round64 (of_int k) = Fin (of_int n * 2 powi (e - 52))"
  proof (rule round64_normal [where e = e])
    show "0 < (of_int k :: rat)" using assms(1) by simp
    show "2 powi e \<le> (of_int k :: rat)" by (rule b(1))
    show "(of_int k :: rat) < 2 powi (e + 1)" by (rule b(2))
    show "- 1022 \<le> e" using e0 by simp
    show "roundHalfEven (of_int k / 2 powi (e - 52)) = n"
      by (simp only: quot roundHalfEven_of_int)
    show "of_int n * (2::rat) powi (e - 52) < 2 powi 1024" by (rule small)
  qed
  then show ?thesis by (simp only: value_n)
qed

lemma round64_numeral:
  "numeral n < (9007199254740992::int) \<Longrightarrow> round64 (numeral n) = Fin (numeral n)"
  using round64_of_int [of "numeral n"] by simp

lemma round64_neg_numeral:
  "numeral n < (9007199254740992::int) \<Longrightarrow> round64 (- numeral n) = Fin (- numeral n)"
  using round64_numeral [of n] by (simp add: round64_minus)

text \<open>
  Examples: a decimal fraction, the two directions of a tie, and the overflow.
\<close>

lemma round64_one_tenth: "round64 (1 / 10) = Fin (3602879701896397 / 36028797018963968)"
  using round64_normal [of "1 / 10" "- 4" 7205759403792794]
  by (simp add: roundHalfEven_def Let_def floor_rat_numeral_divide)

lemma round64_tie_down: "round64 9007199254740993 = Fin 9007199254740992"
  using round64_normal [of 9007199254740993 53 4503599627370496]
  by (simp add: roundHalfEven_def Let_def floor_rat_numeral_divide)

lemma round64_tie_up: "round64 9007199254740995 = Fin 9007199254740996"
  using round64_normal [of 9007199254740995 53 4503599627370498]
  by (simp add: roundHalfEven_def Let_def floor_rat_numeral_divide)

lemma round64_overflow: "round64 (2 ^ 1024) = PosInf"
proof -
  have e: "ilog2 (2 ^ 1024) = 1024"
    by (rule ilog2_unique) simp_all
  have m: "max (1024::int) (- 1022) = 1024" by simp
  have q: "(2::rat) ^ 1024 / 2 powi (1024 - 52) = of_int (2 ^ 52)"
    by simp
  have p: "\<bar>(2::rat) ^ 1024\<bar> = 2 ^ 1024" "(2::rat) ^ 1024 \<noteq> 0" "(0::rat) < 2 ^ 1024" by simp_all
  show ?thesis
    unfolding round64_def Let_def p(1) e m q roundHalfEven_of_int
    by simp
qed

lemma isValue_zero: "isValue (Fin 0)"
proof -
  have "(0::rat) = of_int 0 * 2 powi (- 1074)" by (simp only: of_int_0 mult_zero_left)
  then show ?thesis unfolding isValue_def number.case by (rule exI)
qed

lemma isValue_infinite: "isValue PosInf" "isValue NegInf" "\<not> isValue NaN"
  by (simp_all add: isValue_def)

lemma isValue_num_add: "isValue v \<Longrightarrow> isValue (num_add v (Fin x))"
  by (cases v) (simp_all add: round64_value isValue_infinite)

lemma isValue_foldl_num_add:
  "isValue v \<Longrightarrow> \<forall>c \<in> set costs. \<exists>x. c = Fin x \<Longrightarrow> isValue (foldl num_add v costs)"
proof (induction costs arbitrary: v)
  case Nil
  then show ?case by simp
next
  case (Cons c costs)
  from Cons.prems(2) obtain x where c: "c = Fin x" by auto
  have "isValue (num_add v c)" unfolding c using Cons.prems(1) by (rule isValue_num_add)
  with Cons show ?case by simp
qed

lemma not_truthy_value: "isValue v \<Longrightarrow> \<not> truthy v \<Longrightarrow> v = Fin 0"
  by (cases v) (auto simp: truthy_def isValue_def)

lemma value_gap:
  assumes "isValue (Fin x)" "isValue (Fin y)" "x < y"
  shows "2 powi (- 1074) \<le> y - x"
proof -
  define u :: rat where "u = 2 powi (- 1074)"
  have u: "0 < u" unfolding u_def by (rule zero_less_power_int) simp
  from assms(1,2) obtain k l :: int where x: "x = of_int k * u" and y: "y = of_int l * u"
    unfolding isValue_def number.case u_def by blast
  from assms(3) u have "(of_int k :: rat) < of_int l"
    unfolding x y by (simp only: mult_less_cancel_right_pos)
  then have "k < l" by (simp only: of_int_less_iff)
  then have "1 \<le> l - k" by simp
  then have "(1::rat) \<le> of_int (l - k)" by (simp only: of_int_1_le_iff)
  then have "1 * u \<le> of_int (l - k) * u" using u by (simp only: mult_le_cancel_right_pos)
  also have "of_int (l - k) * u = y - x" unfolding x y by (simp only: of_int_diff left_diff_distrib)
  finally show ?thesis unfolding u_def by (simp only: mult_1)
qed

lemma num_sub_Fin: "num_sub (Fin y) (Fin x) = round64 (y - x)"
  by (simp add: num_sub_def)

lemma num_sub_sign:
  assumes "isValue a" "isValue b"
  shows "num_less (Fin 0) (num_sub b a) \<longleftrightarrow> num_less a b"
    and "truthy (num_sub b a) \<longleftrightarrow> a \<noteq> b"
proof -
  have fin: "(num_less (Fin 0) (num_sub (Fin y) (Fin x)) \<longleftrightarrow> x < y)
      \<and> (truthy (num_sub (Fin y) (Fin x)) \<longleftrightarrow> x \<noteq> y)"
    if vx: "isValue (Fin x)" and vy: "isValue (Fin y)" for x y
  proof -
    consider (eq) "x = y" | (lt) "x < y" | (gt) "y < x" by linarith
    then show ?thesis
    proof cases
      case eq
      then show ?thesis by (simp add: num_sub_Fin round64_def truthy_def)
    next
      case lt
      from value_gap [OF vx vy lt] have "2 powi (- 1074) \<le> y - x" .
      from round64_positive [OF this] lt show ?thesis
        unfolding num_sub_Fin by (auto simp: truthy_def)
    next
      case gt
      from value_gap [OF vy vx gt] have "y - x \<le> - (2 powi (- 1074))" by linarith
      from round64_negative [OF this] gt show ?thesis
        unfolding num_sub_Fin by (auto simp: truthy_def)
    qed
  qed
  show "num_less (Fin 0) (num_sub b a) \<longleftrightarrow> num_less a b"
  proof (cases a)
    case (Fin x)
    note a = this
    show ?thesis
    proof (cases b)
      case (Fin y)
      with a fin [of x y] assms show ?thesis by simp
    qed (use a assms in \<open>simp_all add: num_sub_def isValue_def\<close>)
  qed (use assms in \<open>cases b; simp add: num_sub_def isValue_def\<close>)+
  show "truthy (num_sub b a) \<longleftrightarrow> a \<noteq> b"
  proof (cases a)
    case (Fin x)
    note a = this
    show ?thesis
    proof (cases b)
      case (Fin y)
      with a fin [of x y] assms show ?thesis by simp
    qed (use a assms in \<open>simp_all add: num_sub_def isValue_def truthy_def\<close>)
  qed (use assms in \<open>cases b; simp add: num_sub_def isValue_def truthy_def\<close>)+
qed

lemma num_less_irrefl: "\<not> num_less a a"
  by (cases a) simp_all

lemma num_less_trans: "num_less a b \<Longrightarrow> num_less b c \<Longrightarrow> num_less a c"
  by (cases a; cases b; cases c) simp_all

lemma num_less_asym: "num_less a b \<Longrightarrow> \<not> num_less b a"
  using num_less_irrefl num_less_trans by blast

lemma num_less_total: "isValue a \<Longrightarrow> isValue b \<Longrightarrow> num_less a b \<or> a = b \<or> num_less b a"
  by (cases a; cases b) (auto simp: isValue_def)

section \<open>Sorting with a comparison function\<close>

lemma set_insertSorted: "set (insertSorted cmp x ys) = insert x (set ys)"
  by (induction ys) auto

lemma set_sortWith: "set (sortWith cmp xs) = set xs"
  by (induction xs) (simp_all add: sortWith_def set_insertSorted)

lemma distinct_insertSorted:
  "distinct (insertSorted cmp x ys) \<longleftrightarrow> x \<notin> set ys \<and> distinct ys"
  by (induction ys) (auto simp: set_insertSorted)

lemma distinct_sortWith: "distinct xs \<Longrightarrow> distinct (sortWith cmp xs)"
proof (induction xs)
  case Nil
  show ?case by (simp add: sortWith_def)
next
  case (Cons x xs)
  then have "distinct (sortWith cmp xs)" "x \<notin> set (sortWith cmp xs)"
    by (simp_all add: set_sortWith)
  then show ?case
    using distinct_insertSorted [of cmp x "sortWith cmp xs"] by (simp add: sortWith_def)
qed

lemma sorted_insertSorted:
  assumes total: "\<And>a b. a \<in> S \<Longrightarrow> b \<in> S \<Longrightarrow> num_less (Fin 0) (cmp a b) \<Longrightarrow>
      \<not> num_less (Fin 0) (cmp b a)"
    and trans: "\<And>a b c. a \<in> S \<Longrightarrow> b \<in> S \<Longrightarrow> c \<in> S \<Longrightarrow> \<not> num_less (Fin 0) (cmp a b) \<Longrightarrow>
      \<not> num_less (Fin 0) (cmp b c) \<Longrightarrow> \<not> num_less (Fin 0) (cmp a c)"
    and "x \<in> S" "set ys \<subseteq> S"
    and "sorted_wrt (\<lambda>a b. \<not> num_less (Fin 0) (cmp a b)) ys"
  shows "sorted_wrt (\<lambda>a b. \<not> num_less (Fin 0) (cmp a b)) (insertSorted cmp x ys)"
  using assms(3-)
proof (induction ys)
  case Nil
  show ?case by simp
next
  case (Cons y ys)
  show ?case
  proof (cases "num_less (Fin 0) (cmp x y)")
    case True
    from Cons have ih: "sorted_wrt (\<lambda>a b. \<not> num_less (Fin 0) (cmp a b)) (insertSorted cmp x ys)"
      by simp
    have "\<not> num_less (Fin 0) (cmp y x)"
      using total [of x y] True Cons.prems by simp
    with Cons.prems ih True show ?thesis by (auto simp: set_insertSorted)
  next
    case False
    have "\<not> num_less (Fin 0) (cmp x z)" if "z \<in> set ys" for z
    proof -
      from that Cons.prems have "\<not> num_less (Fin 0) (cmp y z)" "z \<in> S" "y \<in> S" by auto
      with trans [of x y z] False Cons.prems show ?thesis by simp
    qed
    with Cons.prems False show ?thesis by auto
  qed
qed

lemma sorted_sortWith:
  assumes total: "\<And>a b. a \<in> S \<Longrightarrow> b \<in> S \<Longrightarrow> num_less (Fin 0) (cmp a b) \<Longrightarrow>
      \<not> num_less (Fin 0) (cmp b a)"
    and trans: "\<And>a b c. a \<in> S \<Longrightarrow> b \<in> S \<Longrightarrow> c \<in> S \<Longrightarrow> \<not> num_less (Fin 0) (cmp a b) \<Longrightarrow>
      \<not> num_less (Fin 0) (cmp b c) \<Longrightarrow> \<not> num_less (Fin 0) (cmp a c)"
    and "set xs \<subseteq> S"
  shows "sorted_wrt (\<lambda>a b. \<not> num_less (Fin 0) (cmp a b)) (sortWith cmp xs)"
  using assms(3)
proof (induction xs)
  case Nil
  show ?case by (simp add: sortWith_def)
next
  case (Cons x xs)
  then have ih: "sorted_wrt (\<lambda>a b. \<not> num_less (Fin 0) (cmp a b)) (sortWith cmp xs)" by simp
  have "sorted_wrt (\<lambda>a b. \<not> num_less (Fin 0) (cmp a b))
      (insertSorted cmp x (sortWith cmp xs))"
  proof (rule sorted_insertSorted [where S = S])
    show "\<And>a b. a \<in> S \<Longrightarrow> b \<in> S \<Longrightarrow> num_less (Fin 0) (cmp a b) \<Longrightarrow>
        \<not> num_less (Fin 0) (cmp b a)" by (rule total)
    show "\<And>a b c. a \<in> S \<Longrightarrow> b \<in> S \<Longrightarrow> c \<in> S \<Longrightarrow> \<not> num_less (Fin 0) (cmp a b) \<Longrightarrow>
        \<not> num_less (Fin 0) (cmp b c) \<Longrightarrow> \<not> num_less (Fin 0) (cmp a c)" by (rule trans)
    show "x \<in> S" using Cons.prems by simp
    show "set (sortWith cmp xs) \<subseteq> S" using Cons.prems by (simp add: set_sortWith)
    show "sorted_wrt (\<lambda>a b. \<not> num_less (Fin 0) (cmp a b)) (sortWith cmp xs)" by (rule ih)
  qed

  then show ?case by (simp add: sortWith_def)
qed

lemma sorted_wrt_distinct_strict:
  assumes "sorted_wrt P xs" "distinct xs"
    and "\<And>a b. a \<in> set xs \<Longrightarrow> b \<in> set xs \<Longrightarrow> a \<noteq> b \<Longrightarrow> P a b \<Longrightarrow> Q a b"
  shows "sorted_wrt Q xs"
  using assms by (induction xs) auto

section \<open>The sums of the months and their order\<close>

lemma monthYear_not_inherited: "monthYear disaster \<notin> set objectPrototypeKeys"
proof -
  have "CHR '' '' \<in> set (monthYear disaster)" by (simp add: monthYear_def Let_def)
  moreover have "\<forall>k \<in> set objectPrototypeKeys. CHR '' '' \<notin> set k"
    by (simp add: objectPrototypeKeys_def)
  ultimately show ?thesis by blast
qed

lemma isValue_monthTotal:
  assumes "\<forall>claim \<in> set cs. \<exists>x. estimate_cost claim = Fin x"
  shows "isValue (monthTotal ds cs k)"
  unfolding monthTotal_def
  using assms by (intro isValue_foldl_num_add isValue_zero) (auto simp: claimsOfMonth_def)

lemma claimsOfMonth_snoc:
  "claimsOfMonth ds (cs @ [c]) k =
     claimsOfMonth ds cs k @
       (if map_option monthYear (find (\<lambda>d. d_id d = disaster_id c) ds) = Some k then [c] else [])"
  by (simp add: claimsOfMonth_def)

lemma monthTotal_snoc:
  "monthTotal ds (cs @ [c]) k =
     (if map_option monthYear (find (\<lambda>d. d_id d = disaster_id c) ds) = Some k
      then num_add (monthTotal ds cs k) (estimate_cost c) else monthTotal ds cs k)"
  by (auto simp: monthTotal_def claimsOfMonth_snoc)

lemma addClaimToMonth_None:
  "find (\<lambda>d. d_id d = disaster_id c) ds = None \<Longrightarrow> addClaimToMonth ds m c = m"
  by (simp add: addClaimToMonth_def)

lemma addClaimToMonth_Some:
  assumes "find (\<lambda>d. d_id d = disaster_id c) ds = Some disaster"
  shows "map_of (addClaimToMonth ds m c) =
      (map_of m)(monthYear disaster \<mapsto>
         num_add (case map_of m (monthYear disaster) of
                    None \<Rightarrow> Fin 0 | Some v \<Rightarrow> if truthy v then v else Fin 0)
                 (estimate_cost c))"
    and "distinct (map fst m) \<Longrightarrow> distinct (map fst (addClaimToMonth ds m c))"
  using assms
  by (auto simp: addClaimToMonth_def Let_def update_conv' distinct_update
      split: option.splits)

lemma month_claim_costs_invariant:
  assumes "\<forall>claim \<in> set cs. \<exists>x. estimate_cost claim = Fin x"
  shows "distinct (map fst (foldl (addClaimToMonth ds) [] cs))
     \<and> (\<forall>k. map_of (foldl (addClaimToMonth ds) [] cs) k =
            (if claimsOfMonth ds cs k = [] then None else Some (monthTotal ds cs k)))"
  using assms
proof (induction cs rule: rev_induct)
  case Nil
  show ?case by (simp add: claimsOfMonth_def)
next
  case (snoc c cs)
  let ?m = "foldl (addClaimToMonth ds) [] cs"
  from snoc have d: "distinct (map fst ?m)"
    and entry: "\<And>k. map_of ?m k =
        (if claimsOfMonth ds cs k = [] then None else Some (monthTotal ds cs k))"
    by auto
  from snoc.prems have fin: "\<forall>claim \<in> set cs. \<exists>x. estimate_cost claim = Fin x" by simp
  have step: "foldl (addClaimToMonth ds) [] (cs @ [c]) = addClaimToMonth ds ?m c" by simp
  show ?case
  proof (cases "find (\<lambda>d. d_id d = disaster_id c) ds")
    case None
    then show ?thesis
      unfolding step using d entry
      by (simp add: addClaimToMonth_None claimsOfMonth_snoc monthTotal_snoc)
  next
    case (Some disaster)
    let ?k = "monthYear disaster"
    have old: "(case map_of ?m ?k of None \<Rightarrow> Fin 0 | Some v \<Rightarrow> if truthy v then v else Fin 0)
        = monthTotal ds cs ?k"
    proof (cases "claimsOfMonth ds cs ?k = []")
      case True
      then show ?thesis by (simp add: entry monthTotal_def)
    next
      case False
      then show ?thesis
        using not_truthy_value [OF isValue_monthTotal [OF fin, of ds ?k]]
        by (auto simp: entry)
    qed
    have m': "map_of (addClaimToMonth ds ?m c) =
        (map_of ?m)(?k \<mapsto> num_add (monthTotal ds cs ?k) (estimate_cost c))"
      unfolding addClaimToMonth_Some(1) [OF Some] old ..
    have d': "distinct (map fst (addClaimToMonth ds ?m c))"
      using d by (rule addClaimToMonth_Some(2) [OF Some])
    show ?thesis
      unfolding step using d'
      by (simp add: m' entry claimsOfMonth_snoc monthTotal_snoc Some)
  qed
qed

lemma distinct_ownKeys: "distinct (map fst obj) \<Longrightarrow> distinct (ownKeys obj)"
  by (auto simp: ownKeys_def Let_def)

lemma compareMonths_positive:
  assumes "isValue (toNumber (map_of m a))" "isValue (toNumber (map_of m b))"
  shows "num_less (Fin 0) (compareMonths m a b) \<longleftrightarrow>
     num_less (toNumber (map_of m a)) (toNumber (map_of m b))
     \<or> (toNumber (map_of m a) = toNumber (map_of m b) \<and> b < a)"
proof (cases "toNumber (map_of m a) = toNumber (map_of m b)")
  case True
  then have "\<not> truthy (num_sub (toNumber (map_of m b)) (toNumber (map_of m a)))"
    using num_sub_sign(2) [OF assms] by simp
  then have "compareMonths m a b = localeCompare a b"
    by (simp add: compareMonths_def Let_def)
  then show ?thesis
    using True by (auto simp: localeCompare_def num_less_irrefl)
next
  case False
  then have "truthy (num_sub (toNumber (map_of m b)) (toNumber (map_of m a)))"
    using num_sub_sign(2) [OF assms] by simp
  then have "compareMonths m a b = num_sub (toNumber (map_of m b)) (toNumber (map_of m a))"
    by (simp add: compareMonths_def Let_def)
  then show ?thesis
    using False num_sub_sign(1) [OF assms] by simp
qed

lemma month_keys_invariant:
  "distinct (map fst (foldl (addClaimToMonth ds) [] cs))
     \<and> dom (map_of (foldl (addClaimToMonth ds) [] cs)) = {k. claimsOfMonth ds cs k \<noteq> []}"
proof (induction cs rule: rev_induct)
  case Nil
  show ?case by (simp add: claimsOfMonth_def)
next
  case (snoc c cs)
  let ?m = "foldl (addClaimToMonth ds) [] cs"
  from snoc have d: "distinct (map fst ?m)"
    and keys: "dom (map_of ?m) = {k. claimsOfMonth ds cs k \<noteq> []}" by auto
  have step: "foldl (addClaimToMonth ds) [] (cs @ [c]) = addClaimToMonth ds ?m c" by simp
  show ?case
  proof (cases "find (\<lambda>d. d_id d = disaster_id c) ds")
    case None
    then show ?thesis
      unfolding step using d keys by (simp add: addClaimToMonth_None claimsOfMonth_snoc)
  next
    case (Some disaster)
    have "dom (map_of (addClaimToMonth ds ?m c)) = insert (monthYear disaster) (dom (map_of ?m))"
      unfolding addClaimToMonth_Some(1) [OF Some] by simp
    also have "\<dots> = {k. claimsOfMonth ds (cs @ [c]) k \<noteq> []}"
      unfolding keys by (auto simp: claimsOfMonth_snoc Some)
    finally show ?thesis
      unfolding step using addClaimToMonth_Some(2) [OF Some d] by simp
  qed
qed

text \<open>
  C4. \<open>getTopThreeMonthsWithHighestNumOfClaimsDesc\<close> returns at most 3 strings, each the
  English name of a month, a space and a year, of the declared date of the disaster of
  some claim. A claim whose disaster id is not found is in no month. The months are those
  of the claims whose disaster is found, each once; the first 3 of their sorted list are
  returned, all of them when there are fewer. With the cost of every claim a finite
  number, the list is in descending order of the summed cost of the months (the
  unrounded sum the code computes), equal sums in ascending order of the strings.
\<close>

theorem top_three_months:
  "(\<exists>ks. getTopThreeMonthsWithHighestNumOfClaimsDesc ds cs = take 3 ks
       \<and> distinct ks
       \<and> set ks = {k. claimsOfMonth ds cs k \<noteq> []}
       \<and> ((\<forall>claim \<in> set cs. \<exists>x. estimate_cost claim = Fin x) \<longrightarrow>
            sorted_wrt (\<lambda>a b. num_less (monthTotal ds cs b) (monthTotal ds cs a)
                  \<or> (monthTotal ds cs a = monthTotal ds cs b \<and> a < b)) ks))
   \<and> length (getTopThreeMonthsWithHighestNumOfClaimsDesc ds cs)
        = min 3 (card {k. claimsOfMonth ds cs k \<noteq> []})
   \<and> (\<forall>k \<in> set (getTopThreeMonthsWithHighestNumOfClaimsDesc ds cs).
        \<exists>claim \<in> set cs. \<exists>disaster.
          find (\<lambda>d. d_id d = disaster_id claim) ds = Some disaster
          \<and> k = monthName (getMonth (declared_date disaster)) @ '' ''
                 @ numberToString (getFullYear (declared_date disaster)))"
proof -
  let ?m = "foldl (addClaimToMonth ds) [] cs"
  let ?K = "{k. claimsOfMonth ds cs k \<noteq> []}"
  let ?ks = "sortWith (compareMonths ?m) (ownKeys ?m)"
  let ?pos = "\<lambda>a b. num_less (Fin 0) (compareMonths ?m a b)"
  from month_keys_invariant [of ds cs]
  have d: "distinct (map fst ?m)" and dom_m: "dom (map_of ?m) = ?K" by auto
  have keys: "set (ownKeys ?m) = ?K"
    using dom_m by (simp add: set_ownKeys dom_map_of_conv_image_fst)
  have set_ks: "set ?ks = ?K" by (simp only: set_sortWith keys)
  have dist: "distinct ?ks" using d by (intro distinct_sortWith distinct_ownKeys)
  have res: "getTopThreeMonthsWithHighestNumOfClaimsDesc ds cs = take 3 ?ks"
    by (simp add: getTopThreeMonthsWithHighestNumOfClaimsDesc_def Let_def)
  have strict: "sorted_wrt (\<lambda>a b. num_less (monthTotal ds cs b) (monthTotal ds cs a)
                  \<or> (monthTotal ds cs a = monthTotal ds cs b \<and> a < b)) ?ks"
    if finite_costs: "\<forall>claim \<in> set cs. \<exists>x. estimate_cost claim = Fin x"
  proof -
    from month_claim_costs_invariant [OF finite_costs, of ds]
    have entry: "\<And>k. map_of ?m k =
        (if claimsOfMonth ds cs k = [] then None else Some (monthTotal ds cs k))"
      by auto
    have val: "toNumber (map_of ?m k) = monthTotal ds cs k" if "k \<in> ?K" for k
      using that by (simp add: entry toNumber_def)
    have isv: "isValue (monthTotal ds cs k)" for k
      using finite_costs by (rule isValue_monthTotal)
    have pos: "?pos a b \<longleftrightarrow>
        num_less (monthTotal ds cs a) (monthTotal ds cs b)
        \<or> (monthTotal ds cs a = monthTotal ds cs b \<and> b < a)"
      if "a \<in> ?K" "b \<in> ?K" for a b
      using compareMonths_positive [of ?m a b] isv [of a] isv [of b]
      by (simp only: val [OF that(1)] val [OF that(2)])
    have total: "\<not> ?pos b a" if "a \<in> ?K" "b \<in> ?K" "?pos a b" for a b
      using that(3) unfolding pos [OF that(1,2)] pos [OF that(2,1)]
      by (auto dest: num_less_asym simp: num_less_irrefl)
    have trans: "\<not> ?pos a c"
      if "a \<in> ?K" "b \<in> ?K" "c \<in> ?K" "\<not> ?pos a b" "\<not> ?pos b c" for a b c
    proof -
      let ?t = "monthTotal ds cs"
      from that(4) have ab: "\<not> num_less (?t a) (?t b)" "?t a = ?t b \<Longrightarrow> a \<le> b"
        unfolding pos [OF that(1,2)] by auto
      from that(5) have bc: "\<not> num_less (?t b) (?t c)" "?t b = ?t c \<Longrightarrow> b \<le> c"
        unfolding pos [OF that(2,3)] by auto
      have ab': "num_less (?t b) (?t a) \<or> ?t a = ?t b"
        using num_less_total [OF isv [of a] isv [of b]] ab(1) by blast
      have bc': "num_less (?t c) (?t b) \<or> ?t b = ?t c"
        using num_less_total [OF isv [of b] isv [of c]] bc(1) by blast
      have "\<not> num_less (?t a) (?t c)"
        using ab' bc' ab(1) bc(1) num_less_trans [of "?t a" "?t c" "?t b"]
          num_less_trans [of "?t b" "?t a" "?t c"] by metis
      moreover have "a \<le> c" if "?t a = ?t c"
      proof -
        from ab' bc' that have "?t a = ?t b" "?t b = ?t c"
          using num_less_asym [of "?t b" "?t a"] num_less_asym [of "?t c" "?t b"] by auto
        with ab(2) bc(2) show ?thesis by simp
      qed
      ultimately show ?thesis unfolding pos [OF that(1,3)] by auto
    qed
    have sorted: "sorted_wrt (\<lambda>a b. \<not> ?pos a b) ?ks"
    proof (rule sorted_sortWith [where S = ?K])
      show "\<And>a b. a \<in> ?K \<Longrightarrow> b \<in> ?K \<Longrightarrow> ?pos a b \<Longrightarrow> \<not> ?pos b a" by (rule total)
      show "\<And>a b c. a \<in> ?K \<Longrightarrow> b \<in> ?K \<Longrightarrow> c \<in> ?K \<Longrightarrow> \<not> ?pos a b \<Longrightarrow> \<not> ?pos b c
          \<Longrightarrow> \<not> ?pos a c"
        by (rule trans)
      show "set (ownKeys ?m) \<subseteq> ?K" by (simp only: keys subset_refl)
    qed
    show ?thesis
    proof (rule sorted_wrt_distinct_strict [OF sorted dist])
      fix a b
      assume a: "a \<in> set ?ks" and b: "b \<in> set ?ks" and ne: "a \<noteq> b" and np: "\<not> ?pos a b"
      from a b have aK: "a \<in> ?K" and bK: "b \<in> ?K" by (simp_all only: set_ks)
      from np have 1: "\<not> num_less (monthTotal ds cs a) (monthTotal ds cs b)"
        and 2: "monthTotal ds cs a = monthTotal ds cs b \<Longrightarrow> a \<le> b"
        unfolding pos [OF aK bK] by auto
      from num_less_total [OF isv [of a] isv [of b]] 1 2 ne
      show "num_less (monthTotal ds cs b) (monthTotal ds cs a)
          \<or> (monthTotal ds cs a = monthTotal ds cs b \<and> a < b)" by auto
    qed
  qed
  have first: "\<exists>ks. getTopThreeMonthsWithHighestNumOfClaimsDesc ds cs = take 3 ks
       \<and> distinct ks
       \<and> set ks = ?K
       \<and> ((\<forall>claim \<in> set cs. \<exists>x. estimate_cost claim = Fin x) \<longrightarrow>
            sorted_wrt (\<lambda>a b. num_less (monthTotal ds cs b) (monthTotal ds cs a)
                  \<or> (monthTotal ds cs a = monthTotal ds cs b \<and> a < b)) ks)"
    using res dist set_ks strict by blast
  have len: "length (getTopThreeMonthsWithHighestNumOfClaimsDesc ds cs) = min 3 (card ?K)"
  proof -
    have "card ?K = length ?ks" using distinct_card [OF dist] by (simp only: set_ks)
    then show ?thesis by (simp add: res min.commute)
  qed
  have form: "\<forall>k \<in> set (getTopThreeMonthsWithHighestNumOfClaimsDesc ds cs).
        \<exists>claim \<in> set cs. \<exists>disaster.
          find (\<lambda>d. d_id d = disaster_id claim) ds = Some disaster
          \<and> k = monthName (getMonth (declared_date disaster)) @ '' ''
                 @ numberToString (getFullYear (declared_date disaster))"
  proof
    fix k
    assume "k \<in> set (getTopThreeMonthsWithHighestNumOfClaimsDesc ds cs)"
    then have "k \<in> set ?ks" unfolding res by (rule in_set_takeD)
    then have "claimsOfMonth ds cs k \<noteq> []" by (simp add: set_ks)
    then have "hd (claimsOfMonth ds cs k) \<in> set (claimsOfMonth ds cs k)" by (rule hd_in_set)
    then obtain claim where "claim \<in> set (claimsOfMonth ds cs k)" ..
    then have c: "claim \<in> set cs"
      and b: "map_option monthYear (find (\<lambda>d. d_id d = disaster_id claim) ds) = Some k"
      by (simp_all add: claimsOfMonth_def)
    from b obtain disaster where f: "find (\<lambda>d. d_id d = disaster_id claim) ds = Some disaster"
      and k: "k = monthYear disaster" by auto
    from k have "k = monthName (getMonth (declared_date disaster)) @ '' ''
                   @ numberToString (getFullYear (declared_date disaster))"
      by (simp add: monthYear_def Let_def)
    with c f show "\<exists>claim \<in> set cs. \<exists>disaster.
          find (\<lambda>d. d_id d = disaster_id claim) ds = Some disaster
          \<and> k = monthName (getMonth (declared_date disaster)) @ '' ''
                 @ numberToString (getFullYear (declared_date disaster))" by blast
  qed
  from first len form show ?thesis by (intro conjI)
qed

lemma digitsOf_2023: "numberToString 2023 = ''2023''" "numberToString 2022 = ''2022''"
  by (simp_all add: numberToString_def)

lemma monthYear_samples:
  "monthYear (declaredIn 1 2023 0) = ''January 2023''"
  "monthYear (declaredIn 2 2023 2) = ''March 2023''"
  "monthYear (declaredIn 3 2023 3) = ''April 2023''"
  "monthYear (declaredIn 4 2022 4) = ''May 2022''"
  by (simp_all add: monthYear_def declaredIn_def monthName_def monthNames_def digitsOf_2023
      del: digitsOf.simps)

lemma month_costs_sample:
  "foldl (addClaimToMonth monthDisasters) [] monthClaims =
     [(''January 2023'', Fin 350), (''March 2023'', Fin 40), (''April 2023'', Fin 40),
      (''May 2022'', Fin 5)]"
proof -
  have ids: "d_id (declaredIn i y m) = i" for i y m by (simp add: declaredIn_def)
  show ?thesis
    by (simp add: monthClaims_def mkClaim_def monthDisasters_def addClaimToMonth_def
        monthYear_samples round64_numeral truthy_def Let_def ids)
qed

lemma month_keys_sample:
  "ownKeys [(''January 2023'', Fin 350), (''March 2023'', Fin 40), (''April 2023'', Fin 40),
      (''May 2022'', Fin 5)]
     = [''January 2023'', ''March 2023'', ''April 2023'', ''May 2022'']"
  by (simp add: ownKeys_def isArrayIndex_def isDigit_def)

lemma month_order_sample:

  "sortWith (compareMonths [(''January 2023'', Fin 350), (''March 2023'', Fin 40),
        (''April 2023'', Fin 40), (''May 2022'', Fin 5)])
      [''January 2023'', ''March 2023'', ''April 2023'', ''May 2022'']
     = [''January 2023'', ''April 2023'', ''March 2023'', ''May 2022'']"
  by (simp add: sortWith_def compareMonths_def num_sub_def toNumber_def truthy_def
      localeCompare_def round64_numeral round64_neg_numeral round64_zero Let_def)

theorem top_three_months_witness:
  "map estimate_cost monthClaims = [Fin 100, Fin 40, Fin 250, Fin 40, Fin 999, Fin 5]
   \<and> getTopThreeMonthsWithHighestNumOfClaimsDesc monthDisasters monthClaims
       = [''January 2023'', ''April 2023'', ''March 2023'']
   \<and> (\<exists>ks. getTopThreeMonthsWithHighestNumOfClaimsDesc monthDisasters monthClaims = take 3 ks
         \<and> set ks = {k. claimsOfMonth monthDisasters monthClaims k \<noteq> []}
         \<and> sorted_wrt (\<lambda>a b. num_less (monthTotal monthDisasters monthClaims b)
                                 (monthTotal monthDisasters monthClaims a)
               \<or> (monthTotal monthDisasters monthClaims a = monthTotal monthDisasters monthClaims b
                   \<and> a < b)) ks)
   \<and> length (getTopThreeMonthsWithHighestNumOfClaimsDesc monthDisasters monthClaims)
       = min 3 (card {k. claimsOfMonth monthDisasters monthClaims k \<noteq> []})
   \<and> card {k. claimsOfMonth monthDisasters monthClaims k \<noteq> []} = 4"
proof -
  have costs: "map estimate_cost monthClaims
      = [Fin 100, Fin 40, Fin 250, Fin 40, Fin 999, Fin 5]"
    by (simp add: monthClaims_def mkClaim_def)
  have fin: "\<forall>claim \<in> set monthClaims. \<exists>x. estimate_cost claim = Fin x"
    by (simp add: monthClaims_def mkClaim_def)
  have res: "getTopThreeMonthsWithHighestNumOfClaimsDesc monthDisasters monthClaims
      = [''January 2023'', ''April 2023'', ''March 2023'']"
    by (simp add: getTopThreeMonthsWithHighestNumOfClaimsDesc_def Let_def month_costs_sample
        month_keys_sample month_order_sample)
  note T = top_three_months [of monthDisasters monthClaims]
  have len: "length (getTopThreeMonthsWithHighestNumOfClaimsDesc monthDisasters monthClaims)
       = min 3 (card {k. claimsOfMonth monthDisasters monthClaims k \<noteq> []})"
    by (rule T [THEN conjunct2, THEN conjunct1])
  have ordered: "\<exists>ks. getTopThreeMonthsWithHighestNumOfClaimsDesc monthDisasters monthClaims
           = take 3 ks
         \<and> set ks = {k. claimsOfMonth monthDisasters monthClaims k \<noteq> []}
         \<and> sorted_wrt (\<lambda>a b. num_less (monthTotal monthDisasters monthClaims b)
                                 (monthTotal monthDisasters monthClaims a)
               \<or> (monthTotal monthDisasters monthClaims a = monthTotal monthDisasters monthClaims b
                   \<and> a < b)) ks"
    using T [THEN conjunct1] fin by blast
  have four: "card {k. claimsOfMonth monthDisasters monthClaims k \<noteq> []} = 4"
  proof -
    have "{k. claimsOfMonth monthDisasters monthClaims k \<noteq> []}
        = dom (map_of (foldl (addClaimToMonth monthDisasters) [] monthClaims))"
      using month_keys_invariant [of monthDisasters monthClaims] by simp
    also have "\<dots> = {''January 2023'', ''March 2023'', ''April 2023'', ''May 2022''}"
      by (simp only: month_costs_sample) auto
    finally show ?thesis by simp
  qed
  from costs res ordered len four show ?thesis by (intro conjI)
qed

end
